theory Spec2Isabelle
  imports Main "HOL-Library.Sublist"
begin

section \<open>Data model (src/types/index.ts)\<close>

text \<open>
  \<^verbatim>\<open>export type SeverityLevel = 'low' | 'medium' | 'high' | 'critical';\<close>
  The union of four string literals is a datatype; \<open>severity_str\<close> gives back the
  string the JavaScript value is.
\<close>

datatype SeverityLevel = Low | Medium | High | Critical

fun severity_str :: "SeverityLevel \<Rightarrow> string" where
  "severity_str Low = ''low''"
| "severity_str Medium = ''medium''"
| "severity_str High = ''high''"
| "severity_str Critical = ''critical''"

text \<open>\<^verbatim>\<open>interface Range { atOrAbove?: string; below?: string }\<close>: an absent field is \<open>None\<close>.\<close>

record Range =
  atOrAbove :: "string option"
  below :: "string option"

record Vulnerability =
  severity :: SeverityLevel
  summary :: string
  ranges :: "Range list"
  cwe :: "string list option"

text \<open>
  \<open>ScanResult\<close>: the fields the modelled functions read or write. The fields
  \<open>matchedPattern\<close>, \<open>code\<close>, \<open>fix\<close> and \<open>dataFlow\<close> are carried along by
  the filter unchanged and are left to the record's extension part.
\<close>

record ScanResult =
  packageName :: "string option"
  version :: "string option"
  filePath :: "string option"
  lineNumber :: "nat option"
  columnNumber :: "nat option"
  vulnerability :: Vulnerability

section \<open>Severity filter (Scanner.filterBySeverity)\<close>

text \<open>\<open>Array.prototype.indexOf\<close>: the first index holding the element, \<open>-1\<close> when none does.\<close>

fun indexOf :: "'a list \<Rightarrow> 'a \<Rightarrow> int" where
  "indexOf [] x = - 1"
| "indexOf (y # ys) x =
     (if y = x then 0 else (let i = indexOf ys x in if i < 0 then - 1 else i + 1))"

definition severityLevels :: "string list" where
  "severityLevels = [''low'', ''medium'', ''high'', ''critical'']"

text \<open>
  \<^verbatim>\<open>
  private filterBySeverity(results: ScanResult[]): ScanResult[] {
      const severityLevels = ['low', 'medium', 'high', 'critical'];
      const minSeverityIndex = severityLevels.indexOf(this.options.minSeverity);
      return results.filter(result => {
          const resultSeverityIndex = severityLevels.indexOf(result.vulnerability.severity);
          return resultSeverityIndex >= minSeverityIndex;
      });
  }
  \<close>
  \<open>this.options.minSeverity\<close> is the first argument.
\<close>

definition filterBySeverity :: "SeverityLevel \<Rightarrow> ScanResult list \<Rightarrow> ScanResult list" where
  "filterBySeverity minSeverity results =
     (let minSeverityIndex = indexOf severityLevels (severity_str minSeverity)
      in filter (\<lambda>result.
           (let resultSeverityIndex =
                  indexOf severityLevels (severity_str (severity (vulnerability result)))
            in resultSeverityIndex \<ge> minSeverityIndex)) results)"

text \<open>The order of the specification, \<open>low < medium < high < critical\<close>, as an index.\<close>

fun severity_index :: "SeverityLevel \<Rightarrow> nat" where
  "severity_index Low = 0"
| "severity_index Medium = 1"
| "severity_index High = 2"
| "severity_index Critical = 3"

text \<open>A finding of the given severity with nothing else set (for concrete examples).\<close>

definition finding :: "string \<Rightarrow> SeverityLevel \<Rightarrow> ScanResult" where
  "finding s sev =
     \<lparr> packageName = None, version = None, filePath = Some s, lineNumber = None,
       columnNumber = None,
       vulnerability = \<lparr> severity = sev, summary = s, ranges = [], cwe = None \<rparr> \<rparr>"

section \<open>Vulnerability cache (Cache, VulnerabilityCache)\<close>

text \<open>
  \<^verbatim>\<open>interface DatabaseEntry { [key: string]: { vulnerabilities: Vulnerability[] } }\<close>
  and \<^verbatim>\<open>interface CacheEntry<T> { timestamp: number; etag?: string; data: T }\<close>.
  A package's record is modelled by its \<open>vulnerabilities\<close> list (the update mutates
  only that array of the record). Package names are looked up as own properties:
  names that a plain object inherits (\<open>constructor\<close>, \<open>toString\<close>, ...) are outside
  the model.
\<close>

type_synonym DatabaseEntry = "string \<rightharpoonup> Vulnerability list"

record CacheEntry =
  timestamp :: int
  etag :: "string option"
  data :: DatabaseEntry

text \<open>
  The cache directory: a map from file paths to file contents. A file either parses
  to a cache entry or makes \<open>JSON.parse\<close> throw.
\<close>

datatype cache_file = Entry CacheEntry | Unparseable

type_synonym cache_files = "string \<rightharpoonup> cache_file"

text \<open>
  What the cache reads from its surroundings: the configured \<open>ttl\<close>, the path of a
  key's file (\<open>getCacheFilePath\<close>: the cache directory joined with the SHA-256 of the
  key, kept abstract), the two readings of \<open>Date.now()\<close> (in \<open>get\<close> and in
  \<open>set\<close>), and whether \<open>unlink\<close> and \<open>writeFile\<close> succeed (a failure throws, is
  caught and logged, and leaves the directory as it was).
\<close>

record cache_env =
  ttl :: int
  getCacheFilePath :: "string \<Rightarrow> string"
  now_get :: int
  now_set :: int
  unlink_ok :: bool
  write_ok :: bool

text \<open>
  \<^verbatim>\<open>
  public async get<T>(key: string): Promise<CacheEntry<T> | null> {
      try {
          const filePath = this.getCacheFilePath(key);
          if (!fs.existsSync(filePath)) { return null; }
          const data = await fs.promises.readFile(filePath, 'utf8');
          const entry: CacheEntry<T> = JSON.parse(data);
          if (Date.now() - entry.timestamp > this.ttl) {
              await fs.promises.unlink(filePath);
              return null;
          }
          return entry;
      } catch (error) { console.error(...); return null; }
  }
  \<close>
  The result is the entry (or \<open>None\<close> for \<open>null\<close>) and the directory afterwards.
\<close>

definition cache_get ::
  "cache_env \<Rightarrow> cache_files \<Rightarrow> string \<Rightarrow> CacheEntry option \<times> cache_files" where
  "cache_get env files key =
     (let filePath = getCacheFilePath env key in
      case files filePath of
        None \<Rightarrow> (None, files)
      | Some Unparseable \<Rightarrow> (None, files)
      | Some (Entry entry) \<Rightarrow>
          if now_get env - timestamp entry > ttl env
          then (None, if unlink_ok env then files(filePath := None) else files)
          else (Some entry, files))"

text \<open>
  \<^verbatim>\<open>
  public async set<T>(key: string, data: T, etag?: string): Promise<void> {
      try {
          const entry: CacheEntry<T> = { timestamp: Date.now(), etag, data };
          const filePath = this.getCacheFilePath(key);
          await fs.promises.writeFile(filePath, JSON.stringify(entry, null, 2), 'utf8');
      } catch (error) { console.error(...); }
  }
  \<close>
\<close>

definition cache_set ::
  "cache_env \<Rightarrow> cache_files \<Rightarrow> string \<Rightarrow> DatabaseEntry \<Rightarrow> string option \<Rightarrow> cache_files" where
  "cache_set env files key d e =
     (let entry = \<lparr> timestamp = now_set env, etag = e, data = d \<rparr>;
          filePath = getCacheFilePath env key
      in if write_ok env then files(filePath \<mapsto> Entry entry) else files)"

text \<open>\<open>Array.prototype.findIndex\<close>: the first index whose element satisfies the test, else \<open>-1\<close>.\<close>

fun findIndex :: "('a \<Rightarrow> bool) \<Rightarrow> 'a list \<Rightarrow> int" where
  "findIndex p [] = - 1"
| "findIndex p (y # ys) =
     (if p y then 0 else (let i = findIndex p ys in if i < 0 then - 1 else i + 1))"

text \<open>
  \<^verbatim>\<open>
  public async updateVulnerability(url, packageName, vulnerability): Promise<void> {
      const cached = await this.get<DatabaseEntry>(url);
      if (cached) {
          const db = cached.data;
          if (!db[packageName]) { db[packageName] = { vulnerabilities: [] }; }
          const index = db[packageName].vulnerabilities.findIndex(
              v => v.summary === vulnerability.summary);
          if (index >= 0) { db[packageName].vulnerabilities[index] = vulnerability; }
          else { db[packageName].vulnerabilities.push(vulnerability); }
          await this.set(url, db, cached.etag);
      }
  }
  \<close>
\<close>

definition updateVulnerability ::
  "cache_env \<Rightarrow> cache_files \<Rightarrow> string \<Rightarrow> string \<Rightarrow> Vulnerability \<Rightarrow> cache_files" where
  "updateVulnerability env files url pkg vuln =
     (case cache_get env files url of
        (None, files1) \<Rightarrow> files1
      | (Some cached, files1) \<Rightarrow>
          (let db = data cached;
               vs = (case db pkg of None \<Rightarrow> [] | Some vs \<Rightarrow> vs);
               index = findIndex (\<lambda>v. summary v = summary vuln) vs;
               vs' = (if index \<ge> 0 then vs[nat index := vuln] else vs @ [vuln])
           in cache_set env files1 url (db(pkg \<mapsto> vs')) (etag cached)))"





section \<open>Version matching\<close>

subsection \<open>Strings and numbers of JavaScript\<close>

text \<open>
  Characters are bytes; the decimal digits are the codes 48 to 57.
\<close>

definition is_digit :: "char \<Rightarrow> bool" where
  "is_digit c = (let n = (of_char c :: nat) in 48 \<le> n \<and> n \<le> 57)"

definition digit_of :: "char \<Rightarrow> nat" where
  "digit_of c = of_char c - 48"

definition digit_char :: "nat \<Rightarrow> char" where
  "digit_char d = char_of (48 + d)"


text \<open>
  \<^verbatim>\<open>s.split('.')\<close>: the pieces between the dots; the empty string gives one empty
  piece, never an empty array.
\<close>

fun split_dot :: "string \<Rightarrow> string list" where
  "split_dot [] = [[]]"
| "split_dot (c # cs) =
     (if c = CHR ''.'' then [] # split_dot cs
      else (case split_dot cs of [] \<Rightarrow> [[c]] | w # ws \<Rightarrow> (c # w) # ws))"

text \<open>\<^verbatim>\<open>xs.join('.')\<close>.\<close>

fun join_dot :: "string list \<Rightarrow> string" where
  "join_dot [] = []"
| "join_dot [x] = x"
| "join_dot (x # y # ys) = x @ CHR ''.'' # join_dot (y # ys)"

text \<open>
  \<^verbatim>\<open>Number(s)\<close> on a piece of a split version: \<open>None\<close> is \<open>NaN\<close>. The empty
  string converts to 0 and a string of decimal digits to its value; a piece with any
  other character is \<open>NaN\<close>. The model is exact on these strings, which are all the
  pieces of a cleaned version. It does not model the other numeric literals that
  \<open>Number\<close> accepts (a sign, an exponent, a hexadecimal, octal or binary prefix,
  surrounding white space, \<open>Infinity\<close>), and it computes with unbounded naturals
  where JavaScript rounds integers above \<open>2^53\<close>.
\<close>

definition Number :: "string \<Rightarrow> nat option" where
  "Number s =
     (if s = [] then Some 0
      else if list_all is_digit s then Some (foldl (\<lambda>acc c. 10 * acc + digit_of c) 0 s)
      else None)"

text \<open>\<^verbatim>\<open>String(n)\<close> for a number of the model: decimal digits, or \<open>NaN\<close>.\<close>

function show_nat :: "nat \<Rightarrow> string" where
  "show_nat n =
     (if n < 10 then [digit_char n] else show_nat (n div 10) @ [digit_char (n mod 10)])"
  by pat_completeness auto
termination
  by (relation "measure id") auto

declare show_nat.simps [simp del]

fun String_num :: "nat option \<Rightarrow> string" where
  "String_num None = ''NaN''"
| "String_num (Some n) = show_nat n"

text \<open>\<^verbatim>\<open>x || 0\<close> on a number: \<open>NaN\<close>, \<open>undefined\<close> and 0 all give 0.\<close>

fun or0 :: "nat option \<Rightarrow> nat" where
  "or0 None = 0"
| "or0 (Some n) = n"

text \<open>\<^verbatim>\<open>parts[i]\<close>: \<open>undefined\<close> past the end, which \<open>|| 0\<close> treats as \<open>NaN\<close>.\<close>

definition at :: "nat option list \<Rightarrow> nat \<Rightarrow> nat option" where
  "at parts i = (if i < length parts then parts ! i else None)"

subsection \<open>Scanner.compareVersions and Scanner.isVersionInRange (TypeScript scanner)\<close>

text \<open>
  \<^verbatim>\<open>
  private compareVersions(a: string, b: string): number {
      const aParts = a.split('.').map(Number);
      const bParts = b.split('.').map(Number);
      for (let i = 0; i < Math.max(aParts.length, bParts.length); i++) {
          const aVal = aParts[i] || 0;
          const bVal = bParts[i] || 0;
          if (aVal !== bVal) { return aVal - bVal; }
      }
      return 0;
  }
  \<close>
  \<open>compareFrom i\<close> is the loop from index \<open>i\<close> on.
\<close>

function compareFrom :: "nat \<Rightarrow> nat option list \<Rightarrow> nat option list \<Rightarrow> int" where
  "compareFrom i aParts bParts =
     (if i < max (length aParts) (length bParts)
      then (let aVal = or0 (at aParts i); bVal = or0 (at bParts i)
            in if aVal \<noteq> bVal then int aVal - int bVal
               else compareFrom (Suc i) aParts bParts)
      else 0)"
  by pat_completeness auto
termination
  by (relation "measure (\<lambda>(i, aParts, bParts). max (length aParts) (length bParts) - i)") auto

declare compareFrom.simps [simp del]

definition compareVersions :: "string \<Rightarrow> string \<Rightarrow> int" where
  "compareVersions a b =
     (let aParts = map Number (split_dot a); bParts = map Number (split_dot b)
      in compareFrom 0 aParts bParts)"

text \<open>
  \<^verbatim>\<open>
  private isVersionInRange(version: string, ranges?: Range[]): boolean {
      if (!ranges || ranges.length === 0) return false;
      const parts = version.split('.').map(Number);
      const normalizedVersion = parts.slice(0, 3).join('.');
      return ranges.some(range => {
          if (range.atOrAbove && this.compareVersions(normalizedVersion, range.atOrAbove) < 0) {
              return false;
          }
          if (range.below && this.compareVersions(normalizedVersion, range.below) >= 0) {
              return false;
          }
          return true;
      });
  }
  \<close>
  \<open>inRange\<close> is the callback of \<open>some\<close>. A bound is used when the field is present and
  not the empty string (the truthiness test of \<open>&&\<close>). The list of ranges is the
  \<open>ranges\<close> field of a vulnerability, which the type requires.
\<close>

definition inRange :: "string \<Rightarrow> Range \<Rightarrow> bool" where
  "inRange normalizedVersion rng =
     (if (case atOrAbove rng of None \<Rightarrow> False
          | Some a \<Rightarrow> a \<noteq> [] \<and> compareVersions normalizedVersion a < 0) then False
      else if (case below rng of None \<Rightarrow> False
          | Some b \<Rightarrow> b \<noteq> [] \<and> compareVersions normalizedVersion b \<ge> 0) then False
      else True)"

definition isVersionInRange :: "string \<Rightarrow> Range list \<Rightarrow> bool" where
  "isVersionInRange ver rngs =
     (if rngs = [] then False
      else (let parts = map Number (split_dot ver);
                normalizedVersion = join_dot (map String_num (take 3 parts))
            in list_ex (inRange normalizedVersion) rngs))"

subsection \<open>Scanner._parseVersion and Scanner._isVersionVulnerable (src/scanner.js)\<close>

text \<open>
  \<^verbatim>\<open>
  _parseVersion(version) {
      const parts = version.split('.').map(Number);
      return parts[0] * 10000 + (parts[1] || 0) * 100 + (parts[2] || 0);
  }
  \<close>
  \<open>parts[0]\<close> is used as it is: when it is \<open>NaN\<close> the result is \<open>NaN\<close>.
\<close>

definition js_parseVersion :: "string \<Rightarrow> nat option" where
  "js_parseVersion ver =
     (let parts = map Number (split_dot ver) in
      case at parts 0 of
        None \<Rightarrow> None
      | Some major \<Rightarrow> Some (major * 10000 + or0 (at parts 1) * 100 + or0 (at parts 2)))"

text \<open>
  A bound of the callback below: \<open>null\<close> when the field is absent or empty, else the
  parsed number. It is truthy when it is a number other than 0 and \<open>NaN\<close>; a comparison
  with \<open>NaN\<close> is false.
\<close>

datatype js_bound = Null | Num "nat option"

fun truthy :: "js_bound \<Rightarrow> bool" where
  "truthy Null = False"
| "truthy (Num None) = False"
| "truthy (Num (Some n)) = (n \<noteq> 0)"

fun num_ge :: "nat option \<Rightarrow> js_bound \<Rightarrow> bool" where
  "num_ge (Some x) (Num (Some y)) = (x \<ge> y)"
| "num_ge _ _ = False"

fun num_less :: "nat option \<Rightarrow> js_bound \<Rightarrow> bool" where
  "num_less (Some x) (Num (Some y)) = (x < y)"
| "num_less _ _ = False"

definition js_bound_of :: "string option \<Rightarrow> js_bound" where
  "js_bound_of field =
     (case field of None \<Rightarrow> Null
      | Some s \<Rightarrow> if s = [] then Null else Num (js_parseVersion s))"

text \<open>
  \<^verbatim>\<open>
  _isVersionVulnerable(version, ranges) {
      return ranges.some(range => {
          const versionNum = this._parseVersion(version);
          const atOrAbove = range.atOrAbove ? this._parseVersion(range.atOrAbove) : null;
          const below = range.below ? this._parseVersion(range.below) : null;
          if (atOrAbove && below) {
              return versionNum >= atOrAbove && versionNum < below;
          } else if (atOrAbove) {
              return versionNum >= atOrAbove;
          } else if (below) {
              return versionNum < below;
          }
          return false;
      });
  }
  \<close>
\<close>

definition js_isVersionVulnerable :: "string \<Rightarrow> Range list \<Rightarrow> bool" where
  "js_isVersionVulnerable ver rngs =
     list_ex (\<lambda>rng.
        (let versionNum = js_parseVersion ver;
             atOrAbove' = js_bound_of (atOrAbove rng);
             below' = js_bound_of (below rng)
         in if truthy atOrAbove' \<and> truthy below'
            then num_ge versionNum atOrAbove' \<and> num_less versionNum below'
            else if truthy atOrAbove' then num_ge versionNum atOrAbove'
            else if truthy below' then num_less versionNum below'
            else False)) rngs"

subsection \<open>The comparison of the specification\<close>

text \<open>
  The specification compares versions as 3-tuples (major, minor, patch), a missing
  component being 0, in lexicographic order; \<open>spec_isVulnerable ver a b\<close> is
  \<open>a \<le> ver < b\<close> in that order.
\<close>

definition nth0 :: "nat list \<Rightarrow> nat \<Rightarrow> nat" where
  "nth0 xs i = (if i < length xs then xs ! i else 0)"

definition version3 :: "string \<Rightarrow> nat \<times> nat \<times> nat" where
  "version3 ver =
     (let ps = map (or0 \<circ> Number) (split_dot ver) in (nth0 ps 0, nth0 ps 1, nth0 ps 2))"

fun lex3_less :: "nat \<times> nat \<times> nat \<Rightarrow> nat \<times> nat \<times> nat \<Rightarrow> bool" where
  "lex3_less (a1, a2, a3) (b1, b2, b3) =
     (a1 < b1 \<or> (a1 = b1 \<and> (a2 < b2 \<or> (a2 = b2 \<and> a3 < b3))))"

definition lex3_le :: "nat \<times> nat \<times> nat \<Rightarrow> nat \<times> nat \<times> nat \<Rightarrow> bool" where
  "lex3_le x y = (x = y \<or> lex3_less x y)"

definition spec_isVulnerable :: "string \<Rightarrow> string \<Rightarrow> string \<Rightarrow> bool" where
  "spec_isVulnerable ver a b =
     (lex3_le (version3 a) (version3 ver) \<and> lex3_less (version3 ver) (version3 b))"

text \<open>
  Auxiliary functions of the proofs: the loop of \<open>compareVersions\<close> as a recursion on
  the two lists of numbers, the first three numbers of a version, and a list padded
  to a triple.
\<close>

fun cmpNat :: "nat list \<Rightarrow> nat list \<Rightarrow> int" where
  "cmpNat [] [] = 0"
| "cmpNat (x # xs) [] = (if x \<noteq> 0 then int x else cmpNat xs [])"
| "cmpNat [] (y # ys) = (if 0 \<noteq> y then - int y else cmpNat [] ys)"
| "cmpNat (x # xs) (y # ys) = (if x \<noteq> y then int x - int y else cmpNat xs ys)"

definition parts3 :: "string \<Rightarrow> nat list" where
  "parts3 ver = map or0 (take 3 (map Number (split_dot ver)))"

definition pad3 :: "nat list \<Rightarrow> nat \<times> nat \<times> nat" where
  "pad3 xs = (nth0 xs 0, nth0 xs 1, nth0 xs 2)"

subsection \<open>Scanner.scanDependencies\<close>







section \<open>Syntax trees and the data-flow graph\<close>

subsection \<open>The nodes of the parser (TSESTree.Node)\<close>

text \<open>
  The value of a \<open>Literal\<close> node: a string, a number, a boolean, \<open>null\<close>, or a
  regular expression or bigint (\<open>VOther\<close>, with its \<open>String()\<close> form). Numeric
  literals of the model are naturals (a sign is a unary expression of the tree, not part
  of the literal); fractional literals are outside the model.
\<close>

datatype jsvalue = VString string | VNumber nat | VBoolean bool | VNull | VOther string

text \<open>
  The node types the scanner distinguishes, each with the fields it reads:
  \<open>TemplateLiteral\<close> with the raw text of its quasis and its expressions,
  \<open>ArrayExpression\<close> with its elements (a hole is \<open>None\<close>),
  \<open>MemberExpression\<close> with its \<open>computed\<close> flag, object and property,
  \<open>CallExpression\<close> with callee and arguments, \<open>AssignmentExpression\<close> with operator,
  left and right, \<open>VariableDeclarator\<close> with id and optional initialiser. Every other
  node type is \<open>OtherNode\<close> with its type name and its children in traversal order.
  The members of an object expression are properties (key, value) or spread elements.
\<close>

datatype Node =
    Identifier string
  | Literal jsvalue
  | TemplateLiteral "string list" "Node list"
  | ObjectExpression "ObjectMember list"
  | ArrayExpression "Node option list"
  | MemberExpression bool Node Node
  | CallExpression Node "Node list"
  | AssignmentExpression string Node Node
  | VariableDeclarator Node "Node option"
  | ThisExpression
  | OtherNode string "Node list"
and ObjectMember =
    Property Node Node
  | SpreadElement Node

subsection \<open>Scanner.getNodeId\<close>

text \<open>
  \<^verbatim>\<open>
  private getNodeId(node: TSESTree.Node): string | undefined {
      switch (node.type) {
          case AST_NODE_TYPES.Identifier:
              return node.name;
          case AST_NODE_TYPES.MemberExpression:
              const obj = this.getNodeId(node.object);
              const prop = this.getNodeId(node.property);
              return obj && prop ? `${obj}.${prop}` : undefined;
          default:
              return undefined;
      }
  }
  \<close>
  \<open>None\<close> is \<open>undefined\<close>; \<open>obj && prop\<close> also fails on an empty string.
\<close>

fun getNodeId :: "Node \<Rightarrow> string option" where
  "getNodeId (Identifier name) = Some name"
| "getNodeId (MemberExpression computed object property) =
     (case getNodeId object of
        None \<Rightarrow> None
      | Some obj \<Rightarrow>
          (case getNodeId property of
             None \<Rightarrow> None
           | Some prop \<Rightarrow> if obj \<noteq> [] \<and> prop \<noteq> [] then Some (obj @ ''.'' @ prop) else None))"
| "getNodeId _ = None"

text \<open>
  The names along a tree built from identifiers by member access only, left to right;
  \<open>None\<close> for every other tree.
\<close>

fun memberPath :: "Node \<Rightarrow> string list option" where
  "memberPath (Identifier name) = Some [name]"
| "memberPath (MemberExpression computed object property) =
     (case memberPath object of
        None \<Rightarrow> None
      | Some objPath \<Rightarrow>
          (case memberPath property of
             None \<Rightarrow> None
           | Some propPath \<Rightarrow> Some (objPath @ propPath)))"
| "memberPath _ = None"

subsection \<open>The graph and its builder\<close>

text \<open>
  \<^verbatim>\<open>interface DataFlow { type: 'assignment' | 'declaration' | 'call';
                       source?: string; node: TSESTree.Node; arguments?: string[] }\<close>
  (the fields carry the prefix \<open>flow_\<close>). The graph is a \<open>Map<string, DataFlow>\<close>:
  an association list in insertion order, \<open>set\<close> replacing the value of a key in
  place.
\<close>

datatype FlowType = FlowAssignment | FlowDeclaration | FlowCall

record DataFlow =
  flow_type :: FlowType
  flow_source :: "string option"
  flow_node :: Node
  flow_arguments :: "string list option"

type_synonym FlowGraph = "(string \<times> DataFlow) list"

fun graph_set :: "FlowGraph \<Rightarrow> string \<Rightarrow> DataFlow \<Rightarrow> FlowGraph" where
  "graph_set [] k v = [(k, v)]"
| "graph_set ((k', v') # rest) k v =
     (if k' = k then (k, v) # rest else (k', v') # graph_set rest k v)"

definition graph_get :: "FlowGraph \<Rightarrow> string \<Rightarrow> DataFlow option" where
  "graph_get g k = map_of g k"

text \<open>
  \<^verbatim>\<open>
  private trackAssignment(node: TSESTree.AssignmentExpression): void {
      const targetId = this.getNodeId(node.left);
      const sourceId = this.getNodeId(node.right);
      if (targetId && sourceId) {
          this.dataFlowGraph.set(targetId, { type: 'assignment', source: sourceId, node: node });
      }
  }
  private trackVariableDeclaration(node: TSESTree.VariableDeclarator): void {
      const targetId = this.getNodeId(node.id);
      const sourceId = node.init ? this.getNodeId(node.init) : undefined;
      if (targetId && sourceId) {
          this.dataFlowGraph.set(targetId, { type: 'declaration', source: sourceId, node: node });
      }
  }
  private trackFunctionCall(node: TSESTree.CallExpression): void {
      const callId = this.getNodeId(node);
      if (callId) {
          const args = node.arguments.map(arg => this.getNodeId(arg))
              .filter((arg): arg is string => arg !== undefined);
          this.dataFlowGraph.set(callId, { type: 'call', source: this.getNodeId(node.callee),
                                           arguments: args, node: node });
      }
  }
  \<close>
\<close>

definition trackAssignment :: "Node \<Rightarrow> FlowGraph \<Rightarrow> FlowGraph" where
  "trackAssignment n g =
     (case n of
        AssignmentExpression operator left right \<Rightarrow>
          (case (getNodeId left, getNodeId right) of
             (Some targetId, Some sourceId) \<Rightarrow>
               if targetId \<noteq> [] \<and> sourceId \<noteq> []
               then graph_set g targetId
                      \<lparr> flow_type = FlowAssignment, flow_source = Some sourceId, flow_node = n,
                        flow_arguments = None \<rparr>
               else g
           | _ \<Rightarrow> g)
      | _ \<Rightarrow> g)"

definition trackVariableDeclaration :: "Node \<Rightarrow> FlowGraph \<Rightarrow> FlowGraph" where
  "trackVariableDeclaration n g =
     (case n of
        VariableDeclarator ident init \<Rightarrow>
          (case (getNodeId ident, (case init of None \<Rightarrow> None | Some i \<Rightarrow> getNodeId i)) of
             (Some targetId, Some sourceId) \<Rightarrow>
               if targetId \<noteq> [] \<and> sourceId \<noteq> []
               then graph_set g targetId
                      \<lparr> flow_type = FlowDeclaration, flow_source = Some sourceId, flow_node = n,
                        flow_arguments = None \<rparr>
               else g
           | _ \<Rightarrow> g)
      | _ \<Rightarrow> g)"

definition trackFunctionCall :: "Node \<Rightarrow> FlowGraph \<Rightarrow> FlowGraph" where
  "trackFunctionCall n g =
     (case n of
        CallExpression callee args \<Rightarrow>
          (case getNodeId n of
             None \<Rightarrow> g
           | Some callId \<Rightarrow>
               if callId = [] then g
               else graph_set g callId
                      \<lparr> flow_type = FlowCall, flow_source = getNodeId callee, flow_node = n,
                        flow_arguments = Some (List.map_filter getNodeId args) \<rparr>)
      | _ \<Rightarrow> g)"

text \<open>
  \<open>traverse\<close> calls \<open>enter\<close> on every node, a node before its children and the
  children in the order of their fields: \<open>preorder\<close> lists the nodes in the order of
  the visits. (The template elements and the property nodes themselves are visited too;
  \<open>enter\<close> ignores their types, and they are not listed.)
\<close>

fun preorder :: "Node \<Rightarrow> Node list"
  and preorder_list :: "Node list \<Rightarrow> Node list"
  and preorder_opts :: "Node option list \<Rightarrow> Node list"
  and preorder_members :: "ObjectMember list \<Rightarrow> Node list" where
  "preorder (Identifier name) = [Identifier name]"
| "preorder (Literal v) = [Literal v]"
| "preorder (TemplateLiteral quasis expressions) =
     TemplateLiteral quasis expressions # preorder_list expressions"
| "preorder (ObjectExpression properties) =
     ObjectExpression properties # preorder_members properties"
| "preorder (ArrayExpression elements) = ArrayExpression elements # preorder_opts elements"
| "preorder (MemberExpression computed object property) =
     MemberExpression computed object property # preorder object @ preorder property"
| "preorder (CallExpression callee args) =
     CallExpression callee args # preorder callee @ preorder_list args"
| "preorder (AssignmentExpression operator left right) =
     AssignmentExpression operator left right # preorder left @ preorder right"
| "preorder (VariableDeclarator ident init) =
     VariableDeclarator ident init # preorder ident
       @ (case init of None \<Rightarrow> [] | Some i \<Rightarrow> preorder i)"
| "preorder ThisExpression = [ThisExpression]"
| "preorder (OtherNode kind children) = OtherNode kind children # preorder_list children"
| "preorder_list [] = []"
| "preorder_list (n # ns) = preorder n @ preorder_list ns"
| "preorder_opts [] = []"
| "preorder_opts (None # ns) = preorder_opts ns"
| "preorder_opts (Some n # ns) = preorder n @ preorder_opts ns"
| "preorder_members [] = []"
| "preorder_members (Property key v # ms) = preorder key @ preorder v @ preorder_members ms"
| "preorder_members (SpreadElement arg # ms) = preorder arg @ preorder_members ms"

text \<open>
  \<^verbatim>\<open>
  private buildDataFlowGraph(ast: TSESTree.Program): void {
      traverse(ast, { enter: (node: TSESTree.Node) => {
          switch (node.type) {
              case AST_NODE_TYPES.AssignmentExpression: this.trackAssignment(node); break;
              case AST_NODE_TYPES.VariableDeclarator: this.trackVariableDeclaration(node); break;
              case AST_NODE_TYPES.CallExpression: this.trackFunctionCall(node); break;
          }
      } });
  }
  \<close>
  The graph is empty at the start (\<open>scanSourceFile\<close> clears it for every file).
\<close>

definition enter :: "FlowGraph \<Rightarrow> Node \<Rightarrow> FlowGraph" where
  "enter g n =
     (case n of
        AssignmentExpression _ _ _ \<Rightarrow> trackAssignment n g
      | VariableDeclarator _ _ \<Rightarrow> trackVariableDeclaration n g
      | CallExpression _ _ \<Rightarrow> trackFunctionCall n g
      | _ \<Rightarrow> g)"

definition buildDataFlowGraph :: "Node \<Rightarrow> FlowGraph" where
  "buildDataFlowGraph ast = foldl enter [] (preorder ast)"

subsection \<open>The queries: getDataFlowSources, findDataFlowSinks, analyzeDataFlow\<close>

text \<open>\<^verbatim>\<open>[...new Set(xs)]\<close>: the elements in the order of their first occurrence.\<close>

definition uniq :: "'a list \<Rightarrow> 'a list" where
  "uniq xs = foldl (\<lambda>seen x. if x \<in> set seen then seen else seen @ [x]) [] xs"

text \<open>
  \<^verbatim>\<open>
  private getDataFlowSources(flow: DataFlow): string[] {
      const sources: string[] = [];
      if (flow.source) {
          sources.push(flow.source);
          const sourceFlow = this.dataFlowGraph.get(flow.source);
          if (sourceFlow) { sources.push(...this.getDataFlowSources(sourceFlow)); }
      }
      return [...new Set(sources)];
  }
  \<close>
  The recursion of the source is not bounded by anything, so the model counts the
  depth of the calls: the first argument is the number of nested calls still allowed,
  and \<open>None\<close> says that this depth did not suffice. The function returns on an
  input iff some depth gives \<open>Some\<close>; it never returns (the call stack overflows) iff
  every depth gives \<open>None\<close>.
\<close>

fun getDataFlowSources :: "nat \<Rightarrow> FlowGraph \<Rightarrow> DataFlow \<Rightarrow> string list option" where
  "getDataFlowSources 0 g flow = None"
| "getDataFlowSources (Suc fuel) g flow =
     (case flow_source flow of
        None \<Rightarrow> Some (uniq [])
      | Some src \<Rightarrow>
          if src = [] then Some (uniq [])
          else (case graph_get g src of
                  None \<Rightarrow> Some (uniq [src])
                | Some sourceFlow \<Rightarrow>
                    (case getDataFlowSources fuel g sourceFlow of
                       None \<Rightarrow> None
                     | Some rest \<Rightarrow> Some (uniq (src # rest)))))"

text \<open>
  \<^verbatim>\<open>
  private findDataFlowSinks(nodeId: string): string[] {
      const sinks: string[] = [];
      for (const [id, flow] of this.dataFlowGraph.entries()) {
          if (flow.source === nodeId || flow.arguments?.includes(nodeId)) {
              sinks.push(id);
              sinks.push(...this.findDataFlowSinks(id));
          }
      }
      return [...new Set(sinks)];
  }
  \<close>
  \<open>flowsFrom\<close> is the test of the loop, \<open>sinksLoop\<close> the loop over the entries with
  the recursive call as a parameter.
\<close>

definition flowsFrom :: "string \<Rightarrow> DataFlow \<Rightarrow> bool" where
  "flowsFrom nodeId flow =
     (flow_source flow = Some nodeId
      \<or> (case flow_arguments flow of None \<Rightarrow> False | Some args \<Rightarrow> nodeId \<in> set args))"

fun sinksLoop ::
  "(string \<Rightarrow> string list option) \<Rightarrow> string \<Rightarrow> FlowGraph \<Rightarrow> string list option" where
  "sinksLoop recur nodeId [] = Some []"
| "sinksLoop recur nodeId ((ident, flow) # entries) =
     (if flowsFrom nodeId flow
      then (case recur ident of
              None \<Rightarrow> None
            | Some sub \<Rightarrow>
                (case sinksLoop recur nodeId entries of
                   None \<Rightarrow> None
                 | Some others \<Rightarrow> Some (ident # sub @ others)))
      else sinksLoop recur nodeId entries)"

fun findDataFlowSinks :: "nat \<Rightarrow> FlowGraph \<Rightarrow> string \<Rightarrow> string list option" where
  "findDataFlowSinks 0 g nodeId = None"
| "findDataFlowSinks (Suc fuel) g nodeId =
     map_option uniq (sinksLoop (\<lambda>ident. findDataFlowSinks fuel g ident) nodeId g)"

text \<open>
  \<^verbatim>\<open>
  private analyzeDataFlow(node: TSESTree.Node): any {
      const nodeId = this.getNodeId(node);
      if (!nodeId || !this.dataFlowGraph.has(nodeId)) { return undefined; }
      const flow = this.dataFlowGraph.get(nodeId)!;
      const sources = this.getDataFlowSources(flow);
      return { type: flow.type, sources, sinks: this.findDataFlowSinks(nodeId) };
  }
  \<close>
  The outer \<open>None\<close> is, as above, a call depth that did not suffice; \<open>Some None\<close>
  is the result \<open>undefined\<close>.
\<close>

record DataFlowInfo =
  info_type :: FlowType
  info_sources :: "string list"
  info_sinks :: "string list"

definition analyzeDataFlow :: "nat \<Rightarrow> FlowGraph \<Rightarrow> Node \<Rightarrow> DataFlowInfo option option" where
  "analyzeDataFlow fuel g n =
     (case getNodeId n of
        None \<Rightarrow> Some None
      | Some nodeId \<Rightarrow>
          if nodeId = [] then Some None
          else (case graph_get g nodeId of
                  None \<Rightarrow> Some None
                | Some flow \<Rightarrow>
                    (case getDataFlowSources fuel g flow of
                       None \<Rightarrow> None
                     | Some sources \<Rightarrow>
                         (case findDataFlowSinks fuel g nodeId of
                            None \<Rightarrow> None
                          | Some sinks \<Rightarrow>
                              Some (Some \<lparr> info_type = flow_type flow, info_sources = sources,
                                           info_sinks = sinks \<rparr>)))))"

text \<open>
  A graph is acyclic when some rank of the ids decreases along every edge: from the key
  of an entry to its source and to each of its arguments.
\<close>

definition acyclic_by :: "(string \<Rightarrow> nat) \<Rightarrow> FlowGraph \<Rightarrow> bool" where
  "acyclic_by rank g =
     list_all (\<lambda>(ident, flow).
        (case flow_source flow of None \<Rightarrow> True | Some s \<Rightarrow> rank s < rank ident)
        \<and> (case flow_arguments flow of None \<Rightarrow> True
           | Some args \<Rightarrow> list_all (\<lambda>a. rank a < rank ident) args)) g"

text \<open>
  Example programs: \<open>a = a;\<close> and \<open>b = a; c = b; d = b;\<close>, with the graphs the
  builder makes of them.
\<close>

definition stmt :: "Node \<Rightarrow> Node" where
  "stmt e = OtherNode ''ExpressionStatement'' [e]"

definition program :: "Node list \<Rightarrow> Node" where
  "program body = OtherNode ''Program'' body"

definition assign :: "string \<Rightarrow> string \<Rightarrow> Node" where
  "assign x y = AssignmentExpression ''='' (Identifier x) (Identifier y)"

definition self_assign :: Node where
  "self_assign = assign ''a'' ''a''"

definition g_self :: FlowGraph where
  "g_self = buildDataFlowGraph (program [stmt self_assign])"

definition flow_self :: DataFlow where
  "flow_self = \<lparr> flow_type = FlowAssignment, flow_source = Some ''a'',
                 flow_node = self_assign, flow_arguments = None \<rparr>"

definition g_chain :: FlowGraph where
  "g_chain = buildDataFlowGraph
     (program [stmt (assign ''b'' ''a''), stmt (assign ''c'' ''b''), stmt (assign ''d'' ''b'')])"

definition flow_c :: DataFlow where
  "flow_c = \<lparr> flow_type = FlowAssignment, flow_source = Some ''b'',
              flow_node = assign ''c'' ''b'', flow_arguments = None \<rparr>"

definition rank_chain :: "string \<Rightarrow> nat" where
  "rank_chain s = (if s = ''a'' then 0 else if s = ''b'' then 1 else 2)"

definition abc :: Node where
  "abc = MemberExpression False
           (MemberExpression False (Identifier ''a'') (Identifier ''b'')) (Identifier ''c'')"

section \<open>Pattern matching\<close>

subsection \<open>Patterns (src/types/index.ts)\<close>

text \<open>
  \<open>ExpressionPattern\<close> is a union of eight interfaces told apart by their \<open>type\<close>
  field. Each constructor carries the optional fields of its interface that the matcher
  reads: name and regex of an identifier pattern; value and regex of a literal pattern;
  the regex of a template-literal pattern; the properties (key, value) of an object
  pattern; the elements of an array pattern; object and property of a member pattern;
  operator, left and right of an assignment pattern; name and arguments of a call
  pattern. An absent field is \<open>None\<close>.
\<close>

datatype ExpressionPattern =
    IdentifierPattern "string option" "string option"
  | LiteralPattern "jsvalue option" "string option"
  | TemplateLiteralPattern "string option"
  | ObjectPattern "(string \<times> ExpressionPattern) list option"
  | ArrayPattern "ExpressionPattern list option"
  | MemberExpressionPattern "string option" "string option"
  | AssignmentExpressionPattern "string option" "ExpressionPattern option" "ExpressionPattern option"
  | CallExpressionPattern "string option" "ExpressionPattern list option"

text \<open>The \<open>type\<close> field of a pattern and of a node.\<close>

fun pattern_type :: "ExpressionPattern \<Rightarrow> string" where
  "pattern_type (IdentifierPattern _ _) = ''Identifier''"
| "pattern_type (LiteralPattern _ _) = ''Literal''"
| "pattern_type (TemplateLiteralPattern _) = ''TemplateLiteral''"
| "pattern_type (ObjectPattern _) = ''ObjectExpression''"
| "pattern_type (ArrayPattern _) = ''ArrayExpression''"
| "pattern_type (MemberExpressionPattern _ _) = ''MemberExpression''"
| "pattern_type (AssignmentExpressionPattern _ _ _) = ''AssignmentExpression''"
| "pattern_type (CallExpressionPattern _ _) = ''CallExpression''"

fun node_type :: "Node \<Rightarrow> string" where
  "node_type (Identifier _) = ''Identifier''"
| "node_type (Literal _) = ''Literal''"
| "node_type (TemplateLiteral _ _) = ''TemplateLiteral''"
| "node_type (ObjectExpression _) = ''ObjectExpression''"
| "node_type (ArrayExpression _) = ''ArrayExpression''"
| "node_type (MemberExpression _ _ _) = ''MemberExpression''"
| "node_type (CallExpression _ _) = ''CallExpression''"
| "node_type (AssignmentExpression _ _ _) = ''AssignmentExpression''"
| "node_type (VariableDeclarator _ _) = ''VariableDeclarator''"
| "node_type ThisExpression = ''ThisExpression''"
| "node_type (OtherNode kind _) = kind"

text \<open>
  \<open>CodePattern\<close>, a rule: the fields the matcher reads (\<open>type\<close>, \<open>nodeType\<close>,
  \<open>pattern\<close>, \<open>operator\<close>, \<open>left\<close>, \<open>right\<close>) and those that identify the
  rule, with the prefix \<open>cp_\<close>.
\<close>

record CodePattern =
  cp_id :: string
  cp_description :: string
  cp_severity :: SeverityLevel
  cp_type :: string
  cp_nodeType :: "string option"
  cp_pattern :: "ExpressionPattern option"
  cp_operator :: "string option"
  cp_left :: "ExpressionPattern option"
  cp_right :: "ExpressionPattern option"

subsection \<open>Regular expressions\<close>

text \<open>
  \<^verbatim>\<open>new RegExp(src)\<close> throws a \<open>SyntaxError\<close> when \<open>src\<close> is not a regular
  expression; otherwise \<open>.test(s)\<close> answers whether \<open>s\<close> matches (the expression is
  fresh and has no flags, so the answer depends on \<open>src\<close> and \<open>s\<close> only). The
  engine is a parameter of the matcher: it maps a source to \<open>None\<close> when the
  constructor throws, else to its test. A result of the matcher is \<open>Inl\<close> an error
  thrown or \<open>Inr\<close> the boolean returned.
\<close>

datatype jserror = SyntaxError string

type_synonym regexp_engine = "string \<Rightarrow> (string \<Rightarrow> bool) option"

definition regexp_test :: "regexp_engine \<Rightarrow> string \<Rightarrow> string \<Rightarrow> jserror + bool" where
  "regexp_test re src s = (case re src of None \<Rightarrow> Inl (SyntaxError src) | Some t \<Rightarrow> Inr (t s))"

text \<open>A source is harmless when it is empty (it is then never compiled) or compiles.\<close>

definition compiles :: "regexp_engine \<Rightarrow> string \<Rightarrow> bool" where
  "compiles re src = (src = [] \<or> re src \<noteq> None)"

text \<open>
  A concrete engine for the examples. It compiles the sources made of letters and digits
  only, to the search for the source as a substring, which is what such an expression
  means. It rejects every other source; the one such source the examples use is
  \<open>(\<close>, an unterminated group, which every implementation of \<open>RegExp\<close> rejects
  with a \<open>SyntaxError\<close>.
\<close>

definition is_alnum :: "char \<Rightarrow> bool" where
  "is_alnum c = (let n = (of_char c :: nat) in
     (48 \<le> n \<and> n \<le> 57) \<or> (65 \<le> n \<and> n \<le> 90) \<or> (97 \<le> n \<and> n \<le> 122))"

fun starts_with :: "string \<Rightarrow> string \<Rightarrow> bool" where
  "starts_with [] s = True"
| "starts_with (c # cs) [] = False"
| "starts_with (c # cs) (d # ds) = (c = d \<and> starts_with cs ds)"

fun contains :: "string \<Rightarrow> string \<Rightarrow> bool" where
  "contains src [] = (src = [])"
| "contains src (c # cs) = (starts_with src (c # cs) \<or> contains src cs)"

definition plain_engine :: regexp_engine where
  "plain_engine src = (if list_all is_alnum src then Some (contains src) else None)"

subsection \<open>The leaves of the matcher\<close>

text \<open>
  \<^verbatim>\<open>String(node.value)\<close>, and \<^verbatim>\<open>node.value === pattern.value\<close> against a value read
  from JSON (a regular expression or bigint is never identical to one).
\<close>

fun String_value :: "jsvalue \<Rightarrow> string" where
  "String_value (VString s) = s"
| "String_value (VNumber n) = show_nat n"
| "String_value (VBoolean b) = (if b then ''true'' else ''false'')"
| "String_value VNull = ''null''"
| "String_value (VOther s) = s"

fun strict_eq :: "jsvalue \<Rightarrow> jsvalue \<Rightarrow> bool" where
  "strict_eq (VOther _) _ = False"
| "strict_eq v w = (v = w)"

text \<open>
  \<^verbatim>\<open>
  private matchLiteralPattern(node: TSESTree.Literal, pattern: any): boolean {
      if (pattern.type === 'Literal') {
          if (pattern.value !== undefined) { return node.value === pattern.value; }
          if (pattern.regex) { return new RegExp(pattern.regex).test(String(node.value)); }
          return true;
      }
      return false;
  }
  private matchTemplateLiteralPattern(node: TSESTree.TemplateLiteral, pattern: any): boolean {
      if (pattern.type !== 'TemplateLiteral') { return false; }
      if (pattern.regex) {
          const value = node.quasis.map(q => q.value.raw).join('');
          return new RegExp(pattern.regex).test(value);
      }
      return true;
  }
  private matchIdentifierPattern(node: TSESTree.Identifier, pattern: any): boolean {
      if (pattern.type === 'Identifier') {
          if (pattern.name) { return node.name === pattern.name; }
          if (pattern.regex) { return new RegExp(pattern.regex).test(node.name); }
          return true;
      }
      return false;
  }
  \<close>
  The functions take the field of the node they read. A field that is the empty string
  is falsy and counts as absent.
\<close>

definition matchLiteralPattern :: "regexp_engine \<Rightarrow> jsvalue \<Rightarrow> ExpressionPattern \<Rightarrow> jserror + bool" where
  "matchLiteralPattern re v p =
     (case p of
        LiteralPattern pv regex \<Rightarrow>
          (case pv of
             Some w \<Rightarrow> Inr (strict_eq v w)
           | None \<Rightarrow>
               (case regex of
                  Some src \<Rightarrow> if src \<noteq> [] then regexp_test re src (String_value v) else Inr True
                | None \<Rightarrow> Inr True))
      | _ \<Rightarrow> Inr False)"

definition matchTemplateLiteralPattern ::
  "regexp_engine \<Rightarrow> string list \<Rightarrow> ExpressionPattern \<Rightarrow> jserror + bool" where
  "matchTemplateLiteralPattern re quasis p =
     (case p of
        TemplateLiteralPattern regex \<Rightarrow>
          (case regex of
             Some src \<Rightarrow> if src \<noteq> [] then regexp_test re src (concat quasis) else Inr True
           | None \<Rightarrow> Inr True)
      | _ \<Rightarrow> Inr False)"

definition matchIdentifierPattern :: "regexp_engine \<Rightarrow> string \<Rightarrow> ExpressionPattern \<Rightarrow> jserror + bool" where
  "matchIdentifierPattern re name p =
     (case p of
        IdentifierPattern pname regex \<Rightarrow>
          (case pname of
             Some nm \<Rightarrow>
               if nm \<noteq> [] then Inr (name = nm)
               else (case regex of
                       Some src \<Rightarrow> if src \<noteq> [] then regexp_test re src name else Inr True
                     | None \<Rightarrow> Inr True)
           | None \<Rightarrow>
               (case regex of
                  Some src \<Rightarrow> if src \<noteq> [] then regexp_test re src name else Inr True
                | None \<Rightarrow> Inr True))
      | _ \<Rightarrow> Inr False)"

text \<open>
  \<^verbatim>\<open>
  private matchMemberExpression(node: TSESTree.MemberExpression, pattern: CodePattern): boolean {
      if (pattern.type !== 'MemberExpression') { return false; }
      if (pattern.pattern && pattern.pattern.type === 'MemberExpression') {
          if (pattern.pattern.object) {
              if (node.object.type === AST_NODE_TYPES.Identifier) {
                  if (node.object.name !== pattern.pattern.object) { return false; }
              } else if (node.object.type === AST_NODE_TYPES.ThisExpression) {
                  if (pattern.pattern.object !== 'this') { return false; }
              }
          }
          if (pattern.pattern.property) {
              if (node.property.type === AST_NODE_TYPES.Identifier) {
                  if (node.property.name !== pattern.pattern.property) { return false; }
              } else if (node.property.type === AST_NODE_TYPES.Literal) {
                  if (typeof node.property.value === 'string' &&
                      node.property.value !== pattern.pattern.property) { return false; }
              }
          }
      }
      return true;
  }
  \<close>
  The function reads the fields \<open>type\<close> and \<open>pattern\<close> of its second argument, which
  is a rule when \<open>matchesPattern\<close> calls it and an expression pattern when
  \<open>matchExpressionPattern\<close> does: the model takes the two fields, the second being
  \<open>None\<close> for an expression pattern, whose interfaces have no field \<open>pattern\<close>.
  The same holds for \<open>matchCallExpression\<close> below.
\<close>

definition matchMemberExpression :: "Node \<Rightarrow> string \<Rightarrow> ExpressionPattern option \<Rightarrow> bool" where
  "matchMemberExpression n ptype ppattern =
     (case n of
        MemberExpression computed object property \<Rightarrow>
          if ptype \<noteq> ''MemberExpression'' then False
          else (case ppattern of
                  Some (MemberExpressionPattern pobject pproperty) \<Rightarrow>
                    if (case pobject of
                          None \<Rightarrow> False
                        | Some po \<Rightarrow>
                            po \<noteq> [] \<and>
                            (case object of
                               Identifier name \<Rightarrow> name \<noteq> po
                             | ThisExpression \<Rightarrow> po \<noteq> ''this''
                             | _ \<Rightarrow> False))
                    then False
                    else if (case pproperty of
                          None \<Rightarrow> False
                        | Some pp \<Rightarrow>
                            pp \<noteq> [] \<and>
                            (case property of
                               Identifier name \<Rightarrow> name \<noteq> pp
                             | Literal (VString s) \<Rightarrow> s \<noteq> pp
                             | _ \<Rightarrow> False))
                    then False
                    else True
                | _ \<Rightarrow> True)
      | _ \<Rightarrow> False)"

text \<open>
  The key of a property, as \<open>matchObjectPattern\<close> computes it: the name of an
  identifier, the string form of a literal, else \<open>null\<close>.
\<close>

definition key_of :: "Node \<Rightarrow> string option" where
  "key_of k = (case k of Identifier name \<Rightarrow> Some name | Literal v \<Rightarrow> Some (String_value v) | _ \<Rightarrow> None)"

subsection \<open>The recursive matcher\<close>

text \<open>
  \<open>Array.prototype.some\<close> and \<open>every\<close> with a callback that may throw: the
  elements are tried in order, the first decisive answer ends the loop, and an error
  ends it too. \<open>every2_e\<close> runs over the patterns and the nodes at the same index
  (the callers compare the lengths first).
\<close>

fun some_e :: "('a \<Rightarrow> jserror + bool) \<Rightarrow> 'a list \<Rightarrow> jserror + bool" where
  "some_e f [] = Inr False"
| "some_e f (x # xs) =
     (case f x of Inl e \<Rightarrow> Inl e | Inr b \<Rightarrow> if b then Inr True else some_e f xs)"

fun every2_e :: "('a \<Rightarrow> 'b \<Rightarrow> jserror + bool) \<Rightarrow> 'a list \<Rightarrow> 'b list \<Rightarrow> jserror + bool" where
  "every2_e f (x # xs) (y # ys) =
     (case f x y of Inl e \<Rightarrow> Inl e | Inr b \<Rightarrow> if b then every2_e f xs ys else Inr False)"
| "every2_e f _ _ = Inr True"

lemma some_e_cong [fundef_cong]:
  "xs = ys \<Longrightarrow> (\<And>x. x \<in> set ys \<Longrightarrow> f x = g x) \<Longrightarrow> some_e f xs = some_e g ys"
  by (induction ys arbitrary: xs) (auto split: sum.splits)

lemma every2_e_cong [fundef_cong]:
  "xs = xs' \<Longrightarrow> ys = ys' \<Longrightarrow> (\<And>x y. x \<in> set xs' \<Longrightarrow> y \<in> set ys' \<Longrightarrow> f x y = g x y) \<Longrightarrow>
   every2_e f xs ys = every2_e g xs' ys'"
proof (induction g xs' ys' arbitrary: xs ys rule: every2_e.induct)
  case (1 g x xs y ys)
  then show ?case by (auto split: sum.splits)
qed simp_all

text \<open>
  \<^verbatim>\<open>
  private matchExpressionPattern(node: TSESTree.Node, pattern: any): boolean {
      switch (node.type) {
          case AST_NODE_TYPES.Literal: return this.matchLiteralPattern(node, pattern);
          case AST_NODE_TYPES.Identifier: return this.matchIdentifierPattern(node, pattern);
          case AST_NODE_TYPES.MemberExpression: return this.matchMemberExpression(node, pattern);
          case AST_NODE_TYPES.CallExpression: return this.matchCallExpression(node, pattern);
          case AST_NODE_TYPES.ObjectExpression: return this.matchObjectPattern(node, pattern);
          case AST_NODE_TYPES.ArrayExpression: return this.matchArrayPattern(node, pattern);
          default: return false;
      }
  }
  private matchObjectPattern(node: TSESTree.ObjectExpression, pattern: any): boolean {
      if (pattern.type !== 'ObjectExpression') { return false; }
      if (pattern.properties) {
          return node.properties.some(prop => {
              if (prop.type !== AST_NODE_TYPES.Property) return false;
              const key = prop.key.type === AST_NODE_TYPES.Identifier ? prop.key.name :
                         prop.key.type === AST_NODE_TYPES.Literal ? String(prop.key.value) : null;
              return pattern.properties.some((patternProp: any) =>
                  patternProp.key === key && this.matchExpressionPattern(prop.value, patternProp.value)
              );
          });
      }
      return true;
  }
  private matchArrayPattern(node: TSESTree.ArrayExpression, pattern: any): boolean {
      if (pattern.type !== 'ArrayExpression') { return false; }
      if (pattern.elements) {
          if (pattern.elements.length !== node.elements.length) { return false; }
          return pattern.elements.every((elementPattern: any, index: number) =>
              node.elements[index] && this.matchExpressionPattern(node.elements[index], elementPattern)
          );
      }
      return true;
  }
  private matchArgumentPattern(arg: TSESTree.Node, pattern: any): boolean {
      switch (arg.type) {
          case AST_NODE_TYPES.Literal: return this.matchLiteralPattern(arg, pattern);
          case AST_NODE_TYPES.TemplateLiteral: return this.matchTemplateLiteralPattern(arg, pattern);
          case AST_NODE_TYPES.Identifier: return this.matchIdentifierPattern(arg, pattern);
          case AST_NODE_TYPES.ObjectExpression: return this.matchObjectPattern(arg, pattern);
          case AST_NODE_TYPES.ArrayExpression: return this.matchArrayPattern(arg, pattern);
          default: return false;
      }
  }
  private matchCallExpression(node: TSESTree.CallExpression, pattern: CodePattern): boolean {
      if (pattern.type !== 'CallExpression') { return false; }
      if (pattern.pattern && pattern.pattern.type === 'CallExpression') {
          if (node.callee.type === AST_NODE_TYPES.Identifier) {
              if (pattern.pattern.name && node.callee.name !== pattern.pattern.name) {
                  return false;
              }
          }
      }
      if (pattern.pattern && pattern.pattern.type === 'CallExpression' && pattern.pattern.arguments) {
          if (node.arguments.length !== pattern.pattern.arguments.length) { return false; }
          return pattern.pattern.arguments.every((argPattern, i) =>
              this.matchArgumentPattern(node.arguments[i], argPattern));
      }
      return true;
  }
  \<close>
  The five functions call each other and are defined together. Each takes the node
  itself; the node types their callers exclude fall to the last case.
\<close>

fun matchExpressionPattern :: "regexp_engine \<Rightarrow> Node \<Rightarrow> ExpressionPattern \<Rightarrow> jserror + bool"
  and matchObjectPattern :: "regexp_engine \<Rightarrow> Node \<Rightarrow> ExpressionPattern \<Rightarrow> jserror + bool"
  and matchArrayPattern :: "regexp_engine \<Rightarrow> Node \<Rightarrow> ExpressionPattern \<Rightarrow> jserror + bool"
  and matchArgumentPattern :: "regexp_engine \<Rightarrow> Node \<Rightarrow> ExpressionPattern \<Rightarrow> jserror + bool"
  and matchCallExpression ::
    "regexp_engine \<Rightarrow> Node \<Rightarrow> string \<Rightarrow> ExpressionPattern option \<Rightarrow> jserror + bool" where
  "matchExpressionPattern re n p =
     (case n of
        Literal v \<Rightarrow> matchLiteralPattern re v p
      | Identifier name \<Rightarrow> matchIdentifierPattern re name p
      | MemberExpression _ _ _ \<Rightarrow> Inr (matchMemberExpression n (pattern_type p) None)
      | CallExpression _ _ \<Rightarrow> matchCallExpression re n (pattern_type p) None
      | ObjectExpression _ \<Rightarrow> matchObjectPattern re n p
      | ArrayExpression _ \<Rightarrow> matchArrayPattern re n p
      | _ \<Rightarrow> Inr False)"
| "matchObjectPattern re n p =
     (case (n, p) of
        (ObjectExpression props, ObjectPattern pprops) \<Rightarrow>
          (case pprops of
             Some pps \<Rightarrow>
               some_e (\<lambda>member.
                  case member of
                    Property k v \<Rightarrow>
                      some_e (\<lambda>(pkey, pvalue).
                         if Some pkey = key_of k then matchExpressionPattern re v pvalue
                         else Inr False) pps
                  | SpreadElement _ \<Rightarrow> Inr False) props
           | None \<Rightarrow> Inr True)
      | _ \<Rightarrow> Inr False)"
| "matchArrayPattern re n p =
     (case (n, p) of
        (ArrayExpression elems, ArrayPattern pelems) \<Rightarrow>
          (case pelems of
             Some eps \<Rightarrow>
               if length eps \<noteq> length elems then Inr False
               else every2_e (\<lambda>elementPattern element.
                      case element of
                        None \<Rightarrow> Inr False
                      | Some e \<Rightarrow> matchExpressionPattern re e elementPattern) eps elems
           | None \<Rightarrow> Inr True)
      | _ \<Rightarrow> Inr False)"
| "matchArgumentPattern re n p =
     (case n of
        Literal v \<Rightarrow> matchLiteralPattern re v p
      | TemplateLiteral quasis _ \<Rightarrow> matchTemplateLiteralPattern re quasis p
      | Identifier name \<Rightarrow> matchIdentifierPattern re name p
      | ObjectExpression _ \<Rightarrow> matchObjectPattern re n p
      | ArrayExpression _ \<Rightarrow> matchArrayPattern re n p
      | _ \<Rightarrow> Inr False)"
| "matchCallExpression re n ptype ppattern =
     (case n of
        CallExpression callee args \<Rightarrow>
          if ptype \<noteq> ''CallExpression'' then Inr False
          else (case ppattern of
                  Some (CallExpressionPattern pname parguments) \<Rightarrow>
                    if (case callee of
                          Identifier name \<Rightarrow>
                            (case pname of None \<Rightarrow> False | Some nm \<Rightarrow> nm \<noteq> [] \<and> name \<noteq> nm)
                        | _ \<Rightarrow> False)
                    then Inr False
                    else (case parguments of
                            Some aps \<Rightarrow>
                              if length args \<noteq> length aps then Inr False
                              else every2_e (\<lambda>argPattern arg. matchArgumentPattern re arg argPattern)
                                     aps args
                          | None \<Rightarrow> Inr True)
                | _ \<Rightarrow> Inr True)
      | _ \<Rightarrow> Inr False)"

declare matchExpressionPattern.simps [simp del] matchObjectPattern.simps [simp del]
  matchArrayPattern.simps [simp del] matchArgumentPattern.simps [simp del]
  matchCallExpression.simps [simp del]

subsection \<open>matchAssignmentExpression and matchesPattern\<close>

text \<open>
  \<^verbatim>\<open>
  private matchAssignmentExpression(node: TSESTree.AssignmentExpression, pattern: CodePattern): boolean {
      if (pattern.type !== 'AssignmentExpression') { return false; }
      if (pattern.operator && node.operator !== pattern.operator) { return false; }
      if (pattern.left) {
          const leftMatches = this.matchExpressionPattern(node.left, pattern.left);
          if (!leftMatches) return false;
      }
      if (pattern.right) {
          const rightMatches = this.matchExpressionPattern(node.right, pattern.right);
          if (!rightMatches) return false;
      }
      return true;
  }
  private matchesPattern(node: TSESTree.Node, pattern: CodePattern): boolean {
      if (pattern.nodeType && node.type !== pattern.nodeType) { return false; }
      switch (node.type) {
          case AST_NODE_TYPES.CallExpression: return this.matchCallExpression(node, pattern);
          case AST_NODE_TYPES.MemberExpression: return this.matchMemberExpression(node, pattern);
          case AST_NODE_TYPES.AssignmentExpression: return this.matchAssignmentExpression(node, pattern);
          default: return false;
      }
  }
  \<close>
  The matcher reads nothing but its arguments and the engine, and writes nothing: its
  model is a function of the three.
\<close>

definition matchAssignmentExpression :: "regexp_engine \<Rightarrow> Node \<Rightarrow> CodePattern \<Rightarrow> jserror + bool" where
  "matchAssignmentExpression re n cp =
     (case n of
        AssignmentExpression operator left right \<Rightarrow>
          if cp_type cp \<noteq> ''AssignmentExpression'' then Inr False
          else if (case cp_operator cp of None \<Rightarrow> False
                   | Some op \<Rightarrow> op \<noteq> [] \<and> operator \<noteq> op) then Inr False
          else (case (case cp_left cp of
                        None \<Rightarrow> Inr True
                      | Some lp \<Rightarrow> matchExpressionPattern re left lp) of
                  Inl e \<Rightarrow> Inl e
                | Inr leftMatches \<Rightarrow>
                    if \<not> leftMatches then Inr False
                    else (case cp_right cp of
                            None \<Rightarrow> Inr True
                          | Some rp \<Rightarrow> matchExpressionPattern re right rp))
      | _ \<Rightarrow> Inr False)"

definition matchesPattern :: "regexp_engine \<Rightarrow> Node \<Rightarrow> CodePattern \<Rightarrow> jserror + bool" where
  "matchesPattern re n cp =
     (if (case cp_nodeType cp of None \<Rightarrow> False | Some nt \<Rightarrow> nt \<noteq> [] \<and> node_type n \<noteq> nt)
      then Inr False
      else (case n of
              CallExpression _ _ \<Rightarrow> matchCallExpression re n (cp_type cp) (cp_pattern cp)
            | MemberExpression _ _ _ \<Rightarrow> Inr (matchMemberExpression n (cp_type cp) (cp_pattern cp))
            | AssignmentExpression _ _ _ \<Rightarrow> matchAssignmentExpression re n cp
            | _ \<Rightarrow> Inr False))"

text \<open>The regex sources that occur in a pattern, and in a rule.\<close>

fun regexes :: "ExpressionPattern \<Rightarrow> string list" where
  "regexes (IdentifierPattern pname regex) = (case regex of None \<Rightarrow> [] | Some src \<Rightarrow> [src])"
| "regexes (LiteralPattern pv regex) = (case regex of None \<Rightarrow> [] | Some src \<Rightarrow> [src])"
| "regexes (TemplateLiteralPattern regex) = (case regex of None \<Rightarrow> [] | Some src \<Rightarrow> [src])"
| "regexes (ObjectPattern pprops) =
     (case pprops of None \<Rightarrow> [] | Some pps \<Rightarrow> concat (map (\<lambda>(pkey, pvalue). regexes pvalue) pps))"
| "regexes (ArrayPattern pelems) =
     (case pelems of None \<Rightarrow> [] | Some eps \<Rightarrow> concat (map regexes eps))"
| "regexes (MemberExpressionPattern pobject pproperty) = []"
| "regexes (AssignmentExpressionPattern pop pleft pright) =
     (case pleft of None \<Rightarrow> [] | Some l \<Rightarrow> regexes l)
     @ (case pright of None \<Rightarrow> [] | Some r \<Rightarrow> regexes r)"
| "regexes (CallExpressionPattern pname parguments) =
     (case parguments of None \<Rightarrow> [] | Some aps \<Rightarrow> concat (map regexes aps))"

definition cp_regexes :: "CodePattern \<Rightarrow> string list" where
  "cp_regexes cp =
     (case cp_pattern cp of None \<Rightarrow> [] | Some p \<Rightarrow> regexes p)
     @ (case cp_left cp of None \<Rightarrow> [] | Some p \<Rightarrow> regexes p)
     @ (case cp_right cp of None \<Rightarrow> [] | Some p \<Rightarrow> regexes p)"





definition rule_eval :: "string \<Rightarrow> CodePattern" where
  "rule_eval src =
     \<lparr> cp_id = ''no-eval'', cp_description = ''eval of a string'', cp_severity = High,
       cp_type = ''CallExpression'', cp_nodeType = None,
       cp_pattern = Some (CallExpressionPattern (Some ''eval'')
                            (Some [LiteralPattern None (Some src)])),
       cp_operator = None, cp_left = None, cp_right = None \<rparr>"

definition call_eval :: Node where
  "call_eval = CallExpression (Identifier ''eval'') [Literal (VString ''alert'')]"


section \<open>Parallel scan\<close>

subsection \<open>Scanner.scanSourceFile, as the worker sees it\<close>


subsection \<open>The worker (src/parallel/scanner.worker.ts)\<close>

text \<open>
  \<^verbatim>\<open>interface WorkerMessage { type: 'result' | 'error' | 'progress'; data: any; filePath?: string }\<close>
\<close>

datatype WorkerMessage =
    ResultMsg "ScanResult list"
  | ErrorMsg string "string option"
  | ProgressMsg string

text \<open>
  \<^verbatim>\<open>
  async function run() {
      const { files, options, workerId } = workerData as WorkerData;
      const scanner = new Scanner(options);
      const results: ScanResult[] = [];
      try {
          if (options.customRules) { await scanner.loadCustomRules(options.customRules); }
          for (const file of files) {
              try {
                  const fileResults = await scanner.scanSourceFile(file);
                  if (fileResults.length > 0) { results.push(...fileResults); }
                  parentPort?.postMessage({ type: 'progress', data: 1, filePath: file });
              } catch (error) {
                  parentPort?.postMessage({ type: 'error', data: ..., filePath: file });
              }
          }
          parentPort?.postMessage({ type: 'result', data: results });
      } catch (error) {
          parentPort?.postMessage({ type: 'error', data: ... });
      }
  }
  \<close>
  \<open>run\<close> is modelled for any scan of a file that may throw, \<open>scannerWorker\<close> is
  \<open>run\<close> with the scanner's own \<open>scanSourceFile\<close>. The result is the list of
  messages posted, in order, and the lines written to the console. (Loading custom rules
  catches its own errors and posts nothing.)
\<close>

fun runLoop ::
  "(string \<Rightarrow> string + ScanResult list \<times> string list) \<Rightarrow> string list \<Rightarrow> ScanResult list
     \<Rightarrow> WorkerMessage list \<times> string list \<Rightarrow> ScanResult list \<times> WorkerMessage list \<times> string list" where
  "runLoop scanFile [] results (posted, console) = (results, posted, console)"
| "runLoop scanFile (file # files) results (posted, console) =
     (case scanFile file of
        Inr (fileResults, logged) \<Rightarrow>
          runLoop scanFile files
            (if length fileResults > 0 then results @ fileResults else results)
            (posted @ [ProgressMsg file], console @ logged)
      | Inl error \<Rightarrow>
          runLoop scanFile files results (posted @ [ErrorMsg error (Some file)], console))"

definition run ::
  "(string \<Rightarrow> string + ScanResult list \<times> string list) \<Rightarrow> string list
     \<Rightarrow> WorkerMessage list \<times> string list" where
  "run scanFile files =
     (case runLoop scanFile files [] ([], []) of
        (results, posted, console) \<Rightarrow> (posted @ [ResultMsg results], console))"


subsection \<open>The orchestrator (src/parallel/scanner.ts)\<close>














section \<open>Theorems\<close>

subsection \<open>Severity filter\<close>

lemma indexOf_severity:
  "indexOf severityLevels (severity_str s) = int (severity_index s)"
  by (cases s) (simp_all add: severityLevels_def)

text \<open>
  C7. For every finding list and every configured minimum severity, the severity filter
  retains a finding iff the index of its severity in the order low < medium < high <
  critical is at least the index of the configured minimum, and the retained findings
  keep their original relative order: the result is the input list with exactly the
  findings below the minimum removed, hence a subsequence of the input.
\<close>

theorem filterBySeverity_spec:
  "filterBySeverity m rs =
     filter (\<lambda>r. severity_index m \<le> severity_index (severity (vulnerability r))) rs
   \<and> subseq (filterBySeverity m rs) rs
   \<and> (r \<in> set (filterBySeverity m rs) \<longleftrightarrow>
        r \<in> set rs \<and> severity_index m \<le> severity_index (severity (vulnerability r)))"
proof -
  have eq: "filterBySeverity m rs =
     filter (\<lambda>r. severity_index m \<le> severity_index (severity (vulnerability r))) rs"
    by (simp add: filterBySeverity_def indexOf_severity)
  show ?thesis
    unfolding eq by simp
qed

theorem filterBySeverity_spec_witness:
  "filterBySeverity High
     [finding ''a'' Low, finding ''b'' Critical, finding ''c'' Medium, finding ''d'' High]
   = [finding ''b'' Critical, finding ''d'' High]"
  using filterBySeverity_spec [of High
     "[finding ''a'' Low, finding ''b'' Critical, finding ''c'' Medium, finding ''d'' High]"
     "finding ''a'' Low"]
  by (simp add: finding_def)

subsection \<open>Vulnerability cache\<close>

lemma findIndex_neg: "findIndex p xs < 0 \<longleftrightarrow> \<not> list_ex p xs"
  by (induction xs) (auto simp: Let_def)








text \<open>
  An entry older than the ttl is treated as absent by \<open>get\<close>, which evicts it:
  the update is then skipped and the file is gone.
\<close>

lemma updateVulnerability_expired:
  "files (getCacheFilePath env url) = Some (Entry entry) \<Longrightarrow>
   now_get env - timestamp entry > ttl env \<Longrightarrow> unlink_ok env \<Longrightarrow>
   updateVulnerability env files url pkg vuln = files(getCacheFilePath env url := None)"
  by (simp add: updateVulnerability_def cache_get_def)

subsection \<open>Version matching\<close>

lemma compareFrom_cmpNat:
  "compareFrom i aParts bParts = cmpNat (drop i (map or0 aParts)) (drop i (map or0 bParts))"
proof (induction i aParts bParts rule: compareFrom.induct)
  case (1 i aParts bParts)
  show ?case
  proof (cases "i < max (length aParts) (length bParts)")
    case False
    then show ?thesis by (subst compareFrom.simps) simp
  next
    case True
    have da: "drop i (map or0 aParts) =
        (if i < length aParts then or0 (aParts ! i) # drop (Suc i) (map or0 aParts) else [])"
      by (simp add: Cons_nth_drop_Suc [symmetric])
    have db: "drop i (map or0 bParts) =
        (if i < length bParts then or0 (bParts ! i) # drop (Suc i) (map or0 bParts) else [])"
      by (simp add: Cons_nth_drop_Suc [symmetric])
    show ?thesis
    proof (cases "or0 (at aParts i) = or0 (at bParts i)")
      case False
      with True show ?thesis
        by (subst compareFrom.simps) (auto simp: da db at_def Let_def)
    next
      case eq: True
      from "1.IH" [OF True refl refl] eq
      have ih: "compareFrom (Suc i) aParts bParts =
          cmpNat (drop (Suc i) (map or0 aParts)) (drop (Suc i) (map or0 bParts))"
        by simp
      have "compareFrom i aParts bParts = compareFrom (Suc i) aParts bParts"
        using True eq by (subst compareFrom.simps) (simp add: Let_def)
      also note ih
      also have "cmpNat (drop (Suc i) (map or0 aParts)) (drop (Suc i) (map or0 bParts)) =
          cmpNat (drop i (map or0 aParts)) (drop i (map or0 bParts))"
        using True eq unfolding da db by (auto simp: at_def)
      finally show ?thesis .
    qed
  qed
qed

lemma compareVersions_cmpNat:
  "compareVersions a b =
     cmpNat (map (or0 \<circ> Number) (split_dot a)) (map (or0 \<circ> Number) (split_dot b))"
  by (simp add: compareVersions_def compareFrom_cmpNat)

lemma split_dot_not_Nil [simp]: "split_dot s \<noteq> []"
  by (induction s) (auto split: list.splits)

lemma split_dot_no_dot: "CHR ''.'' \<notin> set x \<Longrightarrow> split_dot x = [x]"
  by (induction x) auto

lemma split_dot_append:
  "CHR ''.'' \<notin> set x \<Longrightarrow> split_dot (x @ CHR ''.'' # rest) = x # split_dot rest"
  by (induction x) (auto split: list.splits)

lemma split_join:
  "xs \<noteq> [] \<Longrightarrow> \<forall>x\<in>set xs. CHR ''.'' \<notin> set x \<Longrightarrow> split_dot (join_dot xs) = xs"
proof (induction xs rule: join_dot.induct)
  case 1 then show ?case by simp
next
  case (2 x) then show ?case by (simp add: split_dot_no_dot)
next
  case (3 x y ys)
  then show ?case by (simp add: split_dot_append)
qed

lemma is_digit_digit_char: "d < 10 \<Longrightarrow> is_digit (digit_char d) \<and> digit_of (digit_char d) = d"
  by (simp add: is_digit_def digit_of_def digit_char_def)

lemma show_nat_digits:
  "list_all is_digit (show_nat n) \<and> show_nat n \<noteq> []
   \<and> foldl (\<lambda>acc c. 10 * acc + digit_of c) 0 (show_nat n) = n"
proof (induction n rule: show_nat.induct)
  case (1 n)
  show ?case
  proof (cases "n < 10")
    case True
    then show ?thesis by (subst (1 2 3) show_nat.simps) (simp add: is_digit_digit_char)
  next
    case False
    have m: "n mod 10 < 10" by simp
    from "1.IH" [OF False] is_digit_digit_char [OF m] False show ?thesis
      by (subst (1 2 3) show_nat.simps) simp
  qed
qed

lemma Number_show_nat [simp]: "Number (show_nat n) = Some n"
  using show_nat_digits [of n] by (simp add: Number_def)

lemma is_digit_not_dot: "is_digit c \<Longrightarrow> c \<noteq> CHR ''.''"
  by (auto simp: is_digit_def)

lemma show_nat_no_dot: "CHR ''.'' \<notin> set (show_nat n)"
  using show_nat_digits [of n] is_digit_not_dot by (auto simp: list_all_iff)

lemma Number_NaN [simp]: "Number ''NaN'' = None"
  by (simp add: Number_def is_digit_def)

lemma or0_Number_String [simp]: "or0 (Number (String_num p)) = or0 p"
  by (cases p) simp_all

lemma String_num_no_dot: "CHR ''.'' \<notin> set (String_num p)"
  by (cases p) (simp_all add: show_nat_no_dot)

lemma normalized_parts:
  "ps \<noteq> [] \<Longrightarrow>
   map (or0 \<circ> Number) (split_dot (join_dot (map String_num ps))) = map or0 ps"
proof -
  assume ne: "ps \<noteq> []"
  have "split_dot (join_dot (map String_num ps)) = map String_num ps"
    using ne by (intro split_join) (auto simp: String_num_no_dot)
  then show ?thesis by simp
qed

lemma isVersionInRange_alt:
  "isVersionInRange ver rngs =
     list_ex (\<lambda>rng.
       (case atOrAbove rng of None \<Rightarrow> True
        | Some a \<Rightarrow> a = [] \<or> \<not> cmpNat (parts3 ver) (map (or0 \<circ> Number) (split_dot a)) < 0)
       \<and> (case below rng of None \<Rightarrow> True
        | Some b \<Rightarrow> b = [] \<or> cmpNat (parts3 ver) (map (or0 \<circ> Number) (split_dot b)) < 0)) rngs"
proof -
  have ne: "take 3 (map Number (split_dot ver)) \<noteq> []" by simp
  have cv: "\<And>x. compareVersions (join_dot (map String_num (take 3 (map Number (split_dot ver))))) x
      = cmpNat (parts3 ver) (map (or0 \<circ> Number) (split_dot x))"
    unfolding compareVersions_cmpNat normalized_parts [OF ne] parts3_def ..
  have pt: "\<And>rng. inRange (join_dot (map String_num (take 3 (map Number (split_dot ver))))) rng =
       ((case atOrAbove rng of None \<Rightarrow> True
        | Some a \<Rightarrow> a = [] \<or> \<not> cmpNat (parts3 ver) (map (or0 \<circ> Number) (split_dot a)) < 0)
       \<and> (case below rng of None \<Rightarrow> True
        | Some b \<Rightarrow> b = [] \<or> cmpNat (parts3 ver) (map (or0 \<circ> Number) (split_dot b)) < 0))"
    by (auto simp: inRange_def cv split: option.splits)
  have fn: "inRange (join_dot (map String_num (take 3 (map Number (split_dot ver))))) =
       (\<lambda>rng. (case atOrAbove rng of None \<Rightarrow> True
        | Some a \<Rightarrow> a = [] \<or> \<not> cmpNat (parts3 ver) (map (or0 \<circ> Number) (split_dot a)) < 0)
       \<and> (case below rng of None \<Rightarrow> True
        | Some b \<Rightarrow> b = [] \<or> cmpNat (parts3 ver) (map (or0 \<circ> Number) (split_dot b)) < 0))"
    by (rule ext) (rule pt)
  show ?thesis
    by (cases "rngs = []") (simp_all add: isVersionInRange_def Let_def fn)
qed

lemma short_list_cases:
  "length xs \<le> 3 \<Longrightarrow>
   xs = [] \<or> (\<exists>a. xs = [a]) \<or> (\<exists>a b. xs = [a, b]) \<or> (\<exists>a b c. xs = [a, b, c])"
  by (cases xs; cases "tl xs"; cases "tl (tl xs)"; cases "tl (tl (tl xs))") auto

lemma cmpNat_lex3:
  assumes "length xs \<le> 3" "length ys \<le> 3"
  shows "cmpNat xs ys < 0 \<longleftrightarrow> lex3_less (pad3 xs) (pad3 ys)"
  using short_list_cases [OF assms(1)] short_list_cases [OF assms(2)]
  by (elim disjE exE) (auto simp: pad3_def nth0_def)

lemma version3_parts3: "version3 ver = pad3 (parts3 ver)"
  by (auto simp: version3_def parts3_def pad3_def nth0_def Let_def take_map)

lemma parts3_bound:
  "length (split_dot a) \<le> 3 \<Longrightarrow> parts3 a = map (or0 \<circ> Number) (split_dot a)"
  by (simp add: parts3_def take_map)

lemma length_parts3: "length (parts3 ver) \<le> 3"
  by (simp add: parts3_def)

lemma lex3_le_not_less: "lex3_le x y \<longleftrightarrow> \<not> lex3_less y x"
  by (cases x; cases y) (auto simp: lex3_le_def)

text \<open>
  The TypeScript scanner does compare 3-tuples: with both bounds present, not empty and
  of at most three components, \<open>isVersionInRange\<close> is \<open>a \<le> ver < b\<close> in the order
  of the specification, for every version string.
\<close>

lemma isVersionInRange_both_bounds:
  assumes "a \<noteq> []" "b \<noteq> []" "length (split_dot a) \<le> 3" "length (split_dot b) \<le> 3"
  shows "isVersionInRange ver [\<lparr>atOrAbove = Some a, below = Some b\<rparr>] \<longleftrightarrow>
         spec_isVulnerable ver a b"
proof -
  have la: "length (map (or0 \<circ> Number) (split_dot a)) \<le> 3" using assms(3) by simp
  have lb: "length (map (or0 \<circ> Number) (split_dot b)) \<le> 3" using assms(4) by simp
  show ?thesis
    using assms(1,2)
    by (simp add: isVersionInRange_alt spec_isVulnerable_def lex3_le_not_less
          cmpNat_lex3 [OF length_parts3 la] cmpNat_lex3 [OF length_parts3 lb]
          version3_parts3 parts3_bound [OF assms(3)] parts3_bound [OF assms(4)])
qed

text \<open>
  C1. The claim (\<open>isVulnerable\<close> is true iff \<open>a \<le> v < b\<close> under component-wise
  comparison of the 3-tuple) fails on \<open>_isVersionVulnerable\<close> of src/scanner.js,
  which packs a version into \<open>major * 10000 + minor * 100 + patch\<close>: version
  1.100.0 packs to 20000, the same as 2.0.0, and is reported inside the range
  [2.0.0, 3.0.0) although (1, 100, 0) is below (2, 0, 0). \<open>isVersionInRange\<close> of
  the TypeScript scanner gives the answer of the specification on the same input.
\<close>

theorem js_isVersionVulnerable_packed_version:
  "js_isVersionVulnerable ''1.100.0'' [\<lparr>atOrAbove = Some ''2.0.0'', below = Some ''3.0.0''\<rparr>]
   \<and> \<not> spec_isVulnerable ''1.100.0'' ''2.0.0'' ''3.0.0''
   \<and> \<not> isVersionInRange ''1.100.0'' [\<lparr>atOrAbove = Some ''2.0.0'', below = Some ''3.0.0''\<rparr>]"
proof -
  have js: "js_isVersionVulnerable ''1.100.0''
      [\<lparr>atOrAbove = Some ''2.0.0'', below = Some ''3.0.0''\<rparr>]"
    by (simp add: js_isVersionVulnerable_def js_bound_of_def js_parseVersion_def at_def
          Number_def is_digit_def digit_of_def)
  have sp: "\<not> spec_isVulnerable ''1.100.0'' ''2.0.0'' ''3.0.0''"
    by (simp add: spec_isVulnerable_def version3_def nth0_def lex3_le_def Number_def
          is_digit_def digit_of_def)
  have ts: "\<not> isVersionInRange ''1.100.0''
      [\<lparr>atOrAbove = Some ''2.0.0'', below = Some ''3.0.0''\<rparr>]"
    by (simp add: isVersionInRange_alt parts3_def Number_def is_digit_def digit_of_def)
  from js sp ts show ?thesis by simp
qed

text \<open>
  C3. The claim (a range with neither bound matches no version) fails on
  \<open>isVersionInRange\<close> of the TypeScript scanner: with both fields absent neither
  test of the callback applies and it returns true, for every version string.
\<close>

theorem isVersionInRange_no_bounds:
  "isVersionInRange ver [\<lparr>atOrAbove = None, below = None\<rparr>]"
  by (simp add: isVersionInRange_def inRange_def)

text \<open>\<open>_isVersionVulnerable\<close> of src/scanner.js does what the claim says.\<close>

lemma js_isVersionVulnerable_no_bounds:
  "\<not> js_isVersionVulnerable ver [\<lparr>atOrAbove = None, below = None\<rparr>]"
  by (simp add: js_isVersionVulnerable_def js_bound_of_def)












subsection \<open>Flow-node ids\<close>

lemma memberPath_not_Nil: "memberPath n = Some names \<Longrightarrow> names \<noteq> []"
  by (induction n arbitrary: names rule: memberPath.induct) (auto split: option.splits)

lemma join_dot_not_Nil: "names \<noteq> [] \<Longrightarrow> list_all (\<lambda>x. x \<noteq> []) names \<Longrightarrow> join_dot names \<noteq> []"
  by (induction names rule: join_dot.induct) auto

lemma join_dot_append:
  "xs \<noteq> [] \<Longrightarrow> ys \<noteq> [] \<Longrightarrow> join_dot (xs @ ys) = join_dot xs @ ''.'' @ join_dot ys"
proof (induction xs rule: join_dot.induct)
  case 1 then show ?case by simp
next
  case (2 x) then show ?case by (cases ys) simp_all
next
  case (3 x y zs) then show ?case by simp
qed

lemma getNodeId_memberPath:
  "memberPath n = Some names \<Longrightarrow> list_all (\<lambda>x. x \<noteq> []) names \<Longrightarrow>
   getNodeId n = Some (join_dot names)"
proof (induction n arbitrary: names rule: memberPath.induct)
  case (1 name) then show ?case by auto
next
  case (2 computed object property)
  from "2.prems"(1) obtain objPath propPath where
    o: "memberPath object = Some objPath" and p: "memberPath property = Some propPath"
    and n: "names = objPath @ propPath"
    by (auto split: option.splits)
  from "2.prems"(2) n have ao: "list_all (\<lambda>x. x \<noteq> []) objPath"
    and ap: "list_all (\<lambda>x. x \<noteq> []) propPath" by simp_all
  have io: "getNodeId object = Some (join_dot objPath)" using "2.IH"(1) o ao by simp
  have ip: "getNodeId property = Some (join_dot propPath)" using "2.IH"(2) o p ap by simp
  have no: "objPath \<noteq> []" and np: "propPath \<noteq> []"
    using o p memberPath_not_Nil by blast+
  show ?case
    using io ip n join_dot_not_Nil [OF no ao] join_dot_not_Nil [OF np ap]
    by (simp add: join_dot_append [OF no np])
qed simp_all

lemma getNodeId_None:
  "memberPath n = None \<Longrightarrow> getNodeId n = None"
  by (induction n rule: memberPath.induct) (auto split: option.splits)

lemma getNodeId_CallExpression: "getNodeId (CallExpression callee args) = None"
  by simp

lemma trackFunctionCall_noop: "trackFunctionCall n g = g"
  by (cases n) (simp_all add: trackFunctionCall_def)

text \<open>
  C9, as amended. A bare identifier yields its name. A member access yields
  \<open>object.property\<close> whenever its object and its property both have an id, whatever
  its depth and its \<open>computed\<close> flag: a tree built from identifiers by member access
  yields its names joined by dots (\<open>a.b.c\<close> for a three-level chain). Every other
  node (a call, a literal, \<open>this\<close>, a member access with such a part) yields no id;
  an assignment or declaration with a side that has no id leaves the graph unchanged,
  and a call is never recorded, since a call expression has no id.
\<close>

theorem getNodeId_member_paths:
  "getNodeId (Identifier x) = Some x
   \<and> (memberPath n = Some names \<and> list_all (\<lambda>x. x \<noteq> []) names
        \<longrightarrow> getNodeId n = Some (join_dot names))
   \<and> (memberPath n = None \<longrightarrow> getNodeId n = None)
   \<and> (getNodeId l = None \<or> getNodeId r = None
        \<longrightarrow> trackAssignment (AssignmentExpression op l r) g = g)
   \<and> (getNodeId d = None \<or> i = None \<or> (\<exists>e. i = Some e \<and> getNodeId e = None)
        \<longrightarrow> trackVariableDeclaration (VariableDeclarator d i) g = g)
   \<and> trackFunctionCall c g = g"
proof (intro conjI impI)
  show "getNodeId (Identifier x) = Some x" by simp
  show "getNodeId n = Some (join_dot names)"
    if "memberPath n = Some names \<and> list_all (\<lambda>x. x \<noteq> []) names"
    using that getNodeId_memberPath by blast
  show "getNodeId n = None" if "memberPath n = None"
    using that by (rule getNodeId_None)
  show "trackAssignment (AssignmentExpression op l r) g = g"
    if "getNodeId l = None \<or> getNodeId r = None"
    using that by (auto simp: trackAssignment_def split: option.splits)
  show "trackVariableDeclaration (VariableDeclarator d i) g = g"
    if "getNodeId d = None \<or> i = None \<or> (\<exists>e. i = Some e \<and> getNodeId e = None)"
    using that by (auto simp: trackVariableDeclaration_def split: option.splits)
  show "trackFunctionCall c g = g" by (rule trackFunctionCall_noop)
qed

theorem getNodeId_member_paths_witness:
  "getNodeId abc = Some ''a.b.c''
   \<and> getNodeId (CallExpression (Identifier ''f'') []) = None
   \<and> trackAssignment
       (AssignmentExpression ''='' (Identifier ''x'') (CallExpression (Identifier ''f'') [])) []
       = []"
proof -
  have p: "memberPath abc = Some [''a'', ''b'', ''c''] \<and>
           list_all (\<lambda>x. x \<noteq> []) [''a'', ''b'', ''c'']"
    by (simp add: abc_def)
  have q: "memberPath (CallExpression (Identifier ''f'') []) = None" by simp
  note T = getNodeId_member_paths [where n = abc and names = "[''a'', ''b'', ''c'']"]
  note U = getNodeId_member_paths [where n = "CallExpression (Identifier ''f'') []"
     and l = "Identifier ''x''" and r = "CallExpression (Identifier ''f'') []"
     and op = "''=''" and g = "[]"]
  from T p have 1: "getNodeId abc = Some (join_dot [''a'', ''b'', ''c''])" by blast
  from U q have 2: "getNodeId (CallExpression (Identifier ''f'') []) = None" by blast
  from U 2 have 3: "trackAssignment
       (AssignmentExpression ''='' (Identifier ''x'') (CallExpression (Identifier ''f'') [])) []
       = []" by blast
  from 1 2 3 show ?thesis by simp
qed

text \<open>
  The claim as stated (only a two-level static access has an id; deeper chains and
  computed accesses have none) fails on a three-level chain and on \<open>a[b]\<close>.
\<close>

theorem getNodeId_deep_chain_counterexample:
  "getNodeId (MemberExpression False
       (MemberExpression False (Identifier ''a'') (Identifier ''b'')) (Identifier ''c''))
     = Some ''a.b.c''
   \<and> getNodeId (MemberExpression True (Identifier ''a'') (Identifier ''b'')) = Some ''a.b''"
  by simp

subsection \<open>Data-flow queries\<close>

lemma distinct_uniq_foldl:
  "distinct seen \<Longrightarrow>
   distinct (foldl (\<lambda>seen x. if x \<in> set seen then seen else seen @ [x]) seen xs)"
  by (induction xs arbitrary: seen) auto

lemma distinct_uniq: "distinct (uniq xs)"
  by (simp add: uniq_def distinct_uniq_foldl)

lemma set_uniq_foldl:
  "set (foldl (\<lambda>seen x. if x \<in> set seen then seen else seen @ [x]) seen xs) = set seen \<union> set xs"
  by (induction xs arbitrary: seen) auto

lemma set_uniq: "set (uniq xs) = set xs"
  by (simp add: uniq_def set_uniq_foldl)

lemma getDataFlowSources_distinct:
  "getDataFlowSources fuel g flow = Some r \<Longrightarrow> distinct r"
  by (cases fuel) (auto simp: distinct_uniq split: option.splits if_splits)

lemma findDataFlowSinks_distinct:
  "findDataFlowSinks fuel g nodeId = Some r \<Longrightarrow> distinct r"
  by (cases fuel) (auto simp: distinct_uniq)

lemma acyclic_by_source:
  "acyclic_by rank g \<Longrightarrow> (ident, flow) \<in> set g \<Longrightarrow> flow_source flow = Some s \<Longrightarrow>
   rank s < rank ident"
  by (auto simp: acyclic_by_def list_all_iff)

lemma acyclic_by_flowsFrom:
  "acyclic_by rank g \<Longrightarrow> (ident, flow) \<in> set g \<Longrightarrow> flowsFrom nodeId flow \<Longrightarrow>
   rank nodeId < rank ident"
  by (auto simp: acyclic_by_def list_all_iff flowsFrom_def split: option.splits)

lemma sources_terminate_in_graph:
  "acyclic_by rank g \<Longrightarrow> (ident, flow) \<in> set g \<Longrightarrow> rank ident \<le> k \<Longrightarrow>
   \<exists>r. getDataFlowSources (Suc k) g flow = Some r"
proof (induction k arbitrary: ident flow)
  case 0
  then have "flow_source flow = None"
    using acyclic_by_source [OF "0.prems"(1,2)] by (cases "flow_source flow") auto
  then show ?case by simp
next
  case (Suc k)
  show ?case
  proof (cases "flow_source flow")
    case None then show ?thesis by simp
  next
    case (Some src)
    show ?thesis
    proof (cases "graph_get g src")
      case None with Some show ?thesis by simp
    next
      case sf: (Some sourceFlow)
      then have mem: "(src, sourceFlow) \<in> set g"
        by (auto simp: graph_get_def dest: map_of_SomeD)
      from acyclic_by_source [OF Suc.prems(1,2) Some] Suc.prems(3)
      have "rank src \<le> k" by simp
      from Suc.IH [OF Suc.prems(1) mem this]
      obtain r where "getDataFlowSources (Suc k) g sourceFlow = Some r" by blast
      with Some sf show ?thesis by (simp del: getDataFlowSources.simps(2) add: getDataFlowSources.simps(2) [of "Suc k"])
    qed
  qed
qed


lemma sources_terminate:
  assumes "acyclic_by rank g"
  shows "\<exists>fuel r. getDataFlowSources fuel g flow = Some r"
proof (cases "flow_source flow")
  case None
  then have "getDataFlowSources (Suc 0) g flow = Some (uniq [])" by simp
  then show ?thesis by blast
next
  case (Some src)
  show ?thesis
  proof (cases "graph_get g src")
    case None
    with Some have "\<exists>r. getDataFlowSources (Suc 0) g flow = Some r" by simp
    then show ?thesis by blast
  next
    case sf: (Some sourceFlow)
    then have mem: "(src, sourceFlow) \<in> set g"
      by (auto simp: graph_get_def dest: map_of_SomeD)
    from sources_terminate_in_graph [OF assms mem order_refl]
    obtain r where "getDataFlowSources (Suc (rank src)) g sourceFlow = Some r" by blast
    with Some sf have "\<exists>r'. getDataFlowSources (Suc (Suc (rank src))) g flow = Some r'"
      by (simp del: getDataFlowSources.simps(2)
               add: getDataFlowSources.simps(2) [of "Suc (rank src)"])
    then show ?thesis by blast
  qed
qed

lemma sinksLoop_Some:
  "(\<And>ident flow. (ident, flow) \<in> set entries \<Longrightarrow> flowsFrom nodeId flow \<Longrightarrow>
      \<exists>r. recur ident = Some r) \<Longrightarrow>
   \<exists>r. sinksLoop recur nodeId entries = Some r"
proof (induction entries)
  case Nil then show ?case by simp
next
  case (Cons e entries)
  obtain ident flow where e: "e = (ident, flow)" by (cases e)
  from Cons.IH Cons.prems obtain others where o: "sinksLoop recur nodeId entries = Some others"
    by (metis list.set_intros(2))
  show ?case
  proof (cases "flowsFrom nodeId flow")
    case False with o e show ?thesis by simp
  next
    case True
    with Cons.prems [of ident flow] e obtain sub where "recur ident = Some sub" by auto
    with True o e show ?thesis by simp
  qed
qed

lemma sinks_terminate_bounded:
  assumes ac: "acyclic_by rank g"
    and bound: "\<And>ident flow. (ident, flow) \<in> set g \<Longrightarrow> rank ident \<le> m"
  shows "m \<le> rank nodeId + k \<Longrightarrow> \<exists>r. findDataFlowSinks (Suc k) g nodeId = Some r"
proof (induction k arbitrary: nodeId)
  case 0
  have "\<exists>r. sinksLoop (\<lambda>ident. findDataFlowSinks 0 g ident) nodeId g = Some r"
  proof (rule sinksLoop_Some)
    fix ident flow assume mem: "(ident, flow) \<in> set g" and ff: "flowsFrom nodeId flow"
    from acyclic_by_flowsFrom [OF ac mem ff] bound [OF mem] "0.prems"
    show "\<exists>r. findDataFlowSinks 0 g ident = Some r" by simp
  qed
  then obtain r where R: "sinksLoop (\<lambda>ident. findDataFlowSinks 0 g ident) nodeId g = Some r"
    by blast
  show ?case unfolding findDataFlowSinks.simps(2) R by simp
next
  case (Suc k)
  have "\<exists>r. sinksLoop (\<lambda>ident. findDataFlowSinks (Suc k) g ident) nodeId g = Some r"
  proof (rule sinksLoop_Some)
    fix ident flow assume mem: "(ident, flow) \<in> set g" and ff: "flowsFrom nodeId flow"
    from acyclic_by_flowsFrom [OF ac mem ff] Suc.prems have "m \<le> rank ident + k" by simp
    from Suc.IH [OF this] show "\<exists>r. findDataFlowSinks (Suc k) g ident = Some r" .
  qed
  then obtain r where R: "sinksLoop (\<lambda>ident. findDataFlowSinks (Suc k) g ident) nodeId g = Some r"
    by blast
  show ?case unfolding findDataFlowSinks.simps(2) [of "Suc k"] R by simp
qed

lemma rank_bound:
  fixes rank :: "string \<Rightarrow> nat"
  shows "(ident, flow) \<in> set g \<Longrightarrow> rank ident \<le> sum_list (map (rank \<circ> fst) g)"
  by (induction g) auto

lemma sinks_terminate:
  assumes "acyclic_by rank g"
  shows "\<exists>fuel r. findDataFlowSinks fuel g nodeId = Some r"
proof -
  define m where "m = sum_list (map (rank \<circ> fst) g)"
  have "\<exists>r. findDataFlowSinks (Suc m) g nodeId = Some r"
    by (rule sinks_terminate_bounded [OF assms, where m = m])
       (auto simp: m_def rank_bound)
  then show ?thesis by blast
qed

lemma sources_fuel_mono:
  "getDataFlowSources fuel g flow = Some r \<Longrightarrow> getDataFlowSources (fuel + j) g flow = Some r"
proof (induction fuel arbitrary: flow r)
  case 0 then show ?case by simp
next
  case (Suc fuel)
  then show ?case by (auto split: option.splits if_splits)
qed

lemma sinksLoop_mono:
  "(\<And>ident r. recur ident = Some r \<Longrightarrow> recur' ident = Some r) \<Longrightarrow>
   sinksLoop recur nodeId entries = Some r \<Longrightarrow> sinksLoop recur' nodeId entries = Some r"
proof (induction entries arbitrary: r)
  case Nil then show ?case by simp
next
  case (Cons e entries)
  obtain ident flow where e: "e = (ident, flow)" by (cases e)
  show ?case
  proof (cases "flowsFrom nodeId flow")
    case False
    with Cons e show ?thesis by simp
  next
    case True
    with Cons.prems(2) e obtain sub others where
      s: "recur ident = Some sub" and o: "sinksLoop recur nodeId entries = Some others"
      and r: "r = ident # sub @ others"
      by (auto split: option.splits)
    from Cons.prems(1) [OF s] Cons.IH [OF Cons.prems(1) o] True e r
    show ?thesis by simp
  qed
qed

lemma sinks_fuel_mono:
  "findDataFlowSinks fuel g nodeId = Some r \<Longrightarrow> findDataFlowSinks (fuel + j) g nodeId = Some r"
proof (induction fuel arbitrary: nodeId r)
  case 0 then show ?case by simp
next
  case (Suc fuel)
  from Suc.prems obtain raw where
    raw: "sinksLoop (\<lambda>ident. findDataFlowSinks fuel g ident) nodeId g = Some raw"
    and r: "r = uniq raw" by auto
  have "sinksLoop (\<lambda>ident. findDataFlowSinks (fuel + j) g ident) nodeId g = Some raw"
    by (rule sinksLoop_mono [OF _ raw]) (rule Suc.IH)
  with r show ?case by simp
qed

lemma g_self_eq: "g_self = [(''a'', flow_self)]"
  by (simp add: g_self_def buildDataFlowGraph_def program_def stmt_def self_assign_def
        assign_def enter_def trackAssignment_def flow_self_def)

lemma sources_self_diverge: "getDataFlowSources fuel g_self flow_self = None"
proof (induction fuel)
  case 0 show ?case by simp
next
  case (Suc fuel)
  have "flow_source flow_self = Some ''a''" by (simp add: flow_self_def)
  moreover have "graph_get g_self ''a'' = Some flow_self" by (simp add: g_self_eq graph_get_def)
  ultimately show ?case using Suc by simp
qed

lemma sinks_self_diverge: "findDataFlowSinks fuel g_self ''a'' = None"
proof (induction fuel)
  case 0 show ?case by simp
next
  case (Suc fuel)
  have "flowsFrom ''a'' flow_self" by (simp add: flowsFrom_def flow_self_def)
  with Suc show ?case by (simp add: g_self_eq)
qed


lemma g_chain_eq:
  "g_chain = [(''b'', \<lparr> flow_type = FlowAssignment, flow_source = Some ''a'',
                       flow_node = assign ''b'' ''a'', flow_arguments = None \<rparr>),
              (''c'', flow_c),
              (''d'', \<lparr> flow_type = FlowAssignment, flow_source = Some ''b'',
                       flow_node = assign ''d'' ''b'', flow_arguments = None \<rparr>)]"
  by (simp add: g_chain_def buildDataFlowGraph_def program_def stmt_def
        assign_def enter_def trackAssignment_def flow_c_def)

text \<open>
  C2, as amended. On a graph that is acyclic, both queries return: some call depth
  suffices, every greater depth gives the same list, and the list has no duplicates.
  Nothing in the traversals looks for an id that was visited before; duplicates are
  removed from the returned list only.
\<close>

theorem dataflow_queries_acyclic:
  "acyclic_by rank g \<Longrightarrow>
     (\<exists>fuel r. getDataFlowSources fuel g flow = Some r \<and> distinct r
        \<and> (\<forall>j. getDataFlowSources (fuel + j) g flow = Some r))
   \<and> (\<exists>fuel r. findDataFlowSinks fuel g nodeId = Some r \<and> distinct r
        \<and> (\<forall>j. findDataFlowSinks (fuel + j) g nodeId = Some r))"
proof
  assume ac: "acyclic_by rank g"
  from sources_terminate [OF ac] obtain fuel r where
    "getDataFlowSources fuel g flow = Some r" by blast
  then show "\<exists>fuel r. getDataFlowSources fuel g flow = Some r \<and> distinct r
        \<and> (\<forall>j. getDataFlowSources (fuel + j) g flow = Some r)"
    using getDataFlowSources_distinct sources_fuel_mono by blast
next
  assume ac: "acyclic_by rank g"
  from sinks_terminate [OF ac] obtain fuel r where
    "findDataFlowSinks fuel g nodeId = Some r" by blast
  then show "\<exists>fuel r. findDataFlowSinks fuel g nodeId = Some r \<and> distinct r
        \<and> (\<forall>j. findDataFlowSinks (fuel + j) g nodeId = Some r)"
    using findDataFlowSinks_distinct sinks_fuel_mono by blast
qed

theorem dataflow_queries_acyclic_witness:
  "acyclic_by rank_chain g_chain
   \<and> (\<exists>fuel r. getDataFlowSources fuel g_chain flow_c = Some r \<and> distinct r
        \<and> (\<forall>j. getDataFlowSources (fuel + j) g_chain flow_c = Some r))
   \<and> (\<exists>fuel r. findDataFlowSinks fuel g_chain ''a'' = Some r \<and> distinct r
        \<and> (\<forall>j. findDataFlowSinks (fuel + j) g_chain ''a'' = Some r))
   \<and> getDataFlowSources 2 g_chain flow_c = Some [''b'', ''a'']
   \<and> findDataFlowSinks 3 g_chain ''a'' = Some [''b'', ''c'', ''d'']"
proof -
  have ac: "acyclic_by rank_chain g_chain"
    by (simp add: acyclic_by_def g_chain_eq rank_chain_def flow_c_def)
  have s: "getDataFlowSources 2 g_chain flow_c = Some [''b'', ''a'']"
    by (simp add: numeral_2_eq_2 g_chain_eq graph_get_def flow_c_def uniq_def)
  have t: "findDataFlowSinks 3 g_chain ''a'' = Some [''b'', ''c'', ''d'']"
    by (simp add: numeral_3_eq_3 g_chain_eq flowsFrom_def flow_c_def uniq_def)
  from dataflow_queries_acyclic [OF ac, of flow_c "''a''"] ac s t show ?thesis by blast
qed

text \<open>
  The claim as stated (the queries terminate on a cyclic chain such as \<open>a = a\<close>)
  fails: on the graph built from \<open>a = a;\<close> no call depth suffices for the sources
  of \<open>a\<close>, for its sinks, or for the analysis of the node \<open>a\<close>.
\<close>

theorem dataflow_self_assignment_counterexample:
  "graph_get g_self ''a'' = Some flow_self
   \<and> (\<forall>fuel. getDataFlowSources fuel g_self flow_self = None)
   \<and> (\<forall>fuel. findDataFlowSinks fuel g_self ''a'' = None)
   \<and> (\<forall>fuel. analyzeDataFlow fuel g_self (Identifier ''a'') = None)"
proof -
  have "graph_get g_self ''a'' = Some flow_self" by (simp add: g_self_eq graph_get_def)
  then show ?thesis using sources_self_diverge sinks_self_diverge
    by (simp add: analyzeDataFlow_def)
qed

subsection \<open>Pattern matching\<close>

lemma regexp_test_total: "compiles re src \<Longrightarrow> src \<noteq> [] \<Longrightarrow> \<exists>b. regexp_test re src s = Inr b"
  by (auto simp: compiles_def regexp_test_def)

lemma matchLiteralPattern_total:
  "list_all (compiles re) (regexes p) \<Longrightarrow> \<exists>b. matchLiteralPattern re v p = Inr b"
  by (cases p) (auto simp: matchLiteralPattern_def regexp_test_total split: option.splits)

lemma matchIdentifierPattern_total:
  "list_all (compiles re) (regexes p) \<Longrightarrow> \<exists>b. matchIdentifierPattern re name p = Inr b"
  by (cases p) (auto simp: matchIdentifierPattern_def regexp_test_total split: option.splits)

lemma matchTemplateLiteralPattern_total:
  "list_all (compiles re) (regexes p) \<Longrightarrow> \<exists>b. matchTemplateLiteralPattern re quasis p = Inr b"
  by (cases p) (auto simp: matchTemplateLiteralPattern_def regexp_test_total split: option.splits)

lemma some_e_total:
  "(\<And>x. x \<in> set xs \<Longrightarrow> \<exists>b. f x = Inr b) \<Longrightarrow>
   some_e f xs = Inr (list_ex (\<lambda>x. f x = Inr True) xs)"
proof (induction xs)
  case Nil then show ?case by simp
next
  case (Cons x xs)
  from Cons.prems [of x] obtain b where b: "f x = Inr b" by auto
  from Cons.IH Cons.prems have "some_e f xs = Inr (list_ex (\<lambda>x. f x = Inr True) xs)" by simp
  with b show ?case by simp
qed

lemma every2_e_total:
  "length xs = length ys \<Longrightarrow> (\<And>x y. x \<in> set xs \<Longrightarrow> y \<in> set ys \<Longrightarrow> \<exists>b. f x y = Inr b) \<Longrightarrow>
   every2_e f xs ys = Inr (list_all2 (\<lambda>x y. f x y = Inr True) xs ys)"
proof (induction xs ys rule: list_induct2)
  case Nil then show ?case by simp
next
  case (Cons x xs y ys)
  from Cons.prems [of x y] obtain b where b: "f x y = Inr b" by auto
  from Cons.IH Cons.prems
  have "every2_e f xs ys = Inr (list_all2 (\<lambda>x y. f x y = Inr True) xs ys)" by simp
  with b show ?case by simp
qed

lemma regexes_member:
  "(pkey, pvalue) \<in> set pps \<Longrightarrow> list_all (compiles re) (regexes (ObjectPattern (Some pps)))
     \<Longrightarrow> list_all (compiles re) (regexes pvalue)"
  "ep \<in> set eps \<Longrightarrow> list_all (compiles re) (regexes (ArrayPattern (Some eps)))
     \<Longrightarrow> list_all (compiles re) (regexes ep)"
  "ep \<in> set eps \<Longrightarrow> list_all (compiles re) (regexes (CallExpressionPattern nm (Some eps)))
     \<Longrightarrow> list_all (compiles re) (regexes ep)"
  by (auto simp: list_all_iff)

lemma match_total_aux:
  "list_all (compiles re) (regexes p) \<longrightarrow> (\<exists>b. matchExpressionPattern re n p = Inr b)"
  "list_all (compiles re) (regexes p) \<longrightarrow> (\<exists>b. matchObjectPattern re n p = Inr b)"
  "list_all (compiles re) (regexes p) \<longrightarrow> (\<exists>b. matchArrayPattern re n p = Inr b)"
  "list_all (compiles re) (regexes p) \<longrightarrow> (\<exists>b. matchArgumentPattern re n p = Inr b)"
  "list_all (compiles re) (case ppattern of None \<Rightarrow> [] | Some q \<Rightarrow> regexes q)
     \<longrightarrow> (\<exists>b. matchCallExpression re n ptype ppattern = Inr b)"
proof (induction re n p and re n p and re n p and re n p and re n ptype ppattern
    rule: matchExpressionPattern_matchObjectPattern_matchArrayPattern_matchArgumentPattern_matchCallExpression.induct)
  case (1 re n p)
  show ?case
  proof
    assume ok: "list_all (compiles re) (regexes p)"
    show "\<exists>b. matchExpressionPattern re n p = Inr b"
      using ok "1.IH" matchLiteralPattern_total [OF ok] matchIdentifierPattern_total [OF ok]
      by (cases n) (auto simp: matchExpressionPattern.simps)
  qed
next
  case (2 re n p)
  show ?case
  proof
    assume ok: "list_all (compiles re) (regexes p)"
    show "\<exists>b. matchObjectPattern re n p = Inr b"
    proof (cases n)
      case (ObjectExpression props)
      show ?thesis
      proof (cases p)
        case (ObjectPattern pprops)
        show ?thesis
        proof (cases pprops)
          case None
          with ObjectExpression ObjectPattern show ?thesis
            by (auto simp: matchObjectPattern.simps)
        next
          case (Some pps)
          have inner: "\<exists>b. (case m of
                    Property k v \<Rightarrow>
                      some_e (\<lambda>(pkey, pvalue).
                         if Some pkey = key_of k then matchExpressionPattern re v pvalue
                         else Inr False) pps
                  | SpreadElement _ \<Rightarrow> Inr False) = Inr b" if "m \<in> set props" for m
          proof (cases m)
            case (SpreadElement a) then show ?thesis by auto
          next
            case (Property k v)
            have "\<exists>b. (case pp of (pkey, pvalue) \<Rightarrow>
                     if Some pkey = key_of k then matchExpressionPattern re v pvalue
                     else Inr False) = Inr b" if "pp \<in> set pps" for pp
            proof (cases pp)
              case (Pair pkey pvalue)
              show ?thesis
              proof (cases "Some pkey = key_of k")
                case False with Pair show ?thesis by auto
              next
                case True
                from regexes_member(1) [of pkey pvalue pps re] \<open>pp \<in> set pps\<close> Pair ok ObjectPattern Some
                have okv: "list_all (compiles re) (regexes pvalue)" by auto
                from "2.IH" [OF refl ObjectExpression ObjectPattern Some \<open>m \<in> set props\<close> Property
                     \<open>pp \<in> set pps\<close> Pair [symmetric] True] okv
                show ?thesis using Pair True by auto
              qed
            qed
            from some_e_total [of pps, OF this] Property show ?thesis by auto
          qed
          from some_e_total [of props, OF inner] ObjectExpression ObjectPattern Some
          show ?thesis by (auto simp: matchObjectPattern.simps)
        qed
      qed (auto simp: ObjectExpression matchObjectPattern.simps)
    qed (auto simp: matchObjectPattern.simps)
  qed
next
  case (3 re n p)
  show ?case
  proof
    assume ok: "list_all (compiles re) (regexes p)"
    show "\<exists>b. matchArrayPattern re n p = Inr b"
    proof (cases n)
      case (ArrayExpression elems)
      show ?thesis
      proof (cases p)
        case (ArrayPattern pelems)
        show ?thesis
        proof (cases pelems)
          case None
          with ArrayExpression ArrayPattern show ?thesis by (auto simp: matchArrayPattern.simps)
        next
          case (Some eps)
          show ?thesis
          proof (cases "length eps = length elems")
            case False
            with ArrayExpression ArrayPattern Some show ?thesis
              by (auto simp: matchArrayPattern.simps)
          next
            case True
            have "\<exists>b. (case element of None \<Rightarrow> Inr False
                        | Some e \<Rightarrow> matchExpressionPattern re e ep) = Inr b"
              if "ep \<in> set eps" "element \<in> set elems" for ep element
            proof (cases element)
              case None then show ?thesis by auto
            next
              case (Some e)
              from regexes_member(2) [OF that(1)] ok ArrayPattern \<open>pelems = Some eps\<close>
              have "list_all (compiles re) (regexes ep)" by auto
              with "3.IH" [OF refl ArrayExpression ArrayPattern \<open>pelems = Some eps\<close> _ that Some] True
              show ?thesis using Some by auto
            qed
            from every2_e_total [OF True this] ArrayExpression ArrayPattern Some True
            show ?thesis by (auto simp: matchArrayPattern.simps)
          qed
        qed
      qed (auto simp: ArrayExpression matchArrayPattern.simps)
    qed (auto simp: matchArrayPattern.simps)
  qed
next
  case (4 re n p)
  show ?case
  proof
    assume ok: "list_all (compiles re) (regexes p)"
    show "\<exists>b. matchArgumentPattern re n p = Inr b"
      using ok "4.IH" matchLiteralPattern_total [OF ok] matchIdentifierPattern_total [OF ok]
        matchTemplateLiteralPattern_total [OF ok]
      by (cases n) (auto simp: matchArgumentPattern.simps)
  qed
next
  case (5 re n ptype ppattern)
  show ?case
  proof
    assume ok: "list_all (compiles re) (case ppattern of None \<Rightarrow> [] | Some q \<Rightarrow> regexes q)"
    show "\<exists>b. matchCallExpression re n ptype ppattern = Inr b"
    proof (cases n)
      case (CallExpression callee args)
      show ?thesis
      proof (cases "ptype = ''CallExpression''")
        case False
        with CallExpression show ?thesis by (auto simp: matchCallExpression.simps)
      next
        case pt: True
        show ?thesis
        proof (cases ppattern)
          case None
          with CallExpression pt show ?thesis by (auto simp: matchCallExpression.simps)
        next
          case (Some q)
          show ?thesis
          proof (cases q)
            case (CallExpressionPattern pname parguments)
            let ?c = "(case callee of
                          Identifier name \<Rightarrow>
                            (case pname of None \<Rightarrow> False | Some nm \<Rightarrow> nm \<noteq> [] \<and> name \<noteq> nm)
                        | _ \<Rightarrow> False)"
            show ?thesis
            proof (cases ?c)
              case True
              with CallExpression pt Some CallExpressionPattern show ?thesis
                by (auto simp: matchCallExpression.simps)
            next
              case nc: False
              show ?thesis
              proof (cases parguments)
                case None
                with CallExpression pt Some CallExpressionPattern nc show ?thesis
                  by (auto simp: matchCallExpression.simps)
              next
                case aps: (Some aps)
                show ?thesis
                proof (cases "length args = length aps")
                  case False
                  with CallExpression pt Some CallExpressionPattern nc aps show ?thesis
                    by (auto simp: matchCallExpression.simps)
                next
                  case len: True
                  have "\<exists>b. matchArgumentPattern re arg ap = Inr b"
                    if "ap \<in> set aps" "arg \<in> set args" for ap arg
                  proof -
                    from regexes_member(3) [OF that(1)] ok Some CallExpressionPattern aps
                    have "list_all (compiles re) (regexes ap)" by auto
                    with "5.IH" [OF CallExpression _ Some CallExpressionPattern nc aps _ that] pt len
                    show ?thesis by auto
                  qed
                  from every2_e_total [OF len [symmetric] this]
                    CallExpression pt Some CallExpressionPattern nc aps len
                  show ?thesis by (auto simp: matchCallExpression.simps)
                qed
              qed
            qed
          qed (auto simp: CallExpression pt Some matchCallExpression.simps)
        qed
      qed
    qed (auto simp: matchCallExpression.simps)
  qed
qed

lemma match_total:
  "list_all (compiles re) (regexes p) \<Longrightarrow> \<exists>b. matchExpressionPattern re n p = Inr b"
  "list_all (compiles re) (case ppattern of None \<Rightarrow> [] | Some q \<Rightarrow> regexes q) \<Longrightarrow>
     \<exists>b. matchCallExpression re n ptype ppattern = Inr b"
  using match_total_aux(1,5) by blast+

lemma matchesPattern_returns:
  assumes "list_all (compiles re) (cp_regexes cp)"
  shows "\<exists>b. matchesPattern re n cp = Inr b"
proof -
  from assms have p: "list_all (compiles re) (case cp_pattern cp of None \<Rightarrow> [] | Some q \<Rightarrow> regexes q)"
    and l: "list_all (compiles re) (case cp_left cp of None \<Rightarrow> [] | Some q \<Rightarrow> regexes q)"
    and r: "list_all (compiles re) (case cp_right cp of None \<Rightarrow> [] | Some q \<Rightarrow> regexes q)"
    by (simp_all add: cp_regexes_def)
  have asg: "\<exists>b. matchAssignmentExpression re n cp = Inr b"
  proof (cases n)
    case (AssignmentExpression operator left right)
    have L: "\<exists>b. (case cp_left cp of None \<Rightarrow> Inr True
                  | Some lp \<Rightarrow> matchExpressionPattern re left lp) = Inr b"
      using l match_total(1) [of re _ left] by (cases "cp_left cp") auto
    have R: "\<exists>b. (case cp_right cp of None \<Rightarrow> Inr True
                  | Some rp \<Rightarrow> matchExpressionPattern re right rp) = Inr b"
      using r match_total(1) [of re _ right] by (cases "cp_right cp") auto
    from L R AssignmentExpression show ?thesis
      by (auto simp: matchAssignmentExpression_def)
  qed (auto simp: matchAssignmentExpression_def)
  show ?thesis
    using asg match_total(2) [OF p, of n "cp_type cp"]
    by (cases n) (auto simp: matchesPattern_def)
qed

lemma matchesPattern_kind_mismatch:
  "cp_type cp \<noteq> node_type n \<Longrightarrow> matchesPattern re n cp = Inr False"
  by (cases n)
     (auto simp: matchesPattern_def matchCallExpression.simps matchMemberExpression_def
        matchAssignmentExpression_def)

lemma matchesPattern_other_node:
  "node_type n \<notin> {''CallExpression'', ''MemberExpression'', ''AssignmentExpression''} \<Longrightarrow>
   matchesPattern re n cp = Inr False"
  by (cases n) (auto simp: matchesPattern_def)

text \<open>
  C8, as amended. The matcher is a function of the node, the rule and the regex engine
  (it has no other input and no effect). It returns a boolean whenever every regex
  source of the rule is empty or compiles; a rule whose kind differs from the node's,
  and a node that is no call, member access or assignment, give false. A regex source
  that does not compile makes the constructor of the regular expression throw, and
  nothing in the matcher catches the error.
\<close>

theorem matchesPattern_total:
  "(list_all (compiles re) (cp_regexes cp) \<longrightarrow> (\<exists>b. matchesPattern re n cp = Inr b))
   \<and> (cp_type cp \<noteq> node_type n \<longrightarrow> matchesPattern re n cp = Inr False)
   \<and> (node_type n \<notin> {''CallExpression'', ''MemberExpression'', ''AssignmentExpression''}
        \<longrightarrow> matchesPattern re n cp = Inr False)"
  using matchesPattern_returns matchesPattern_kind_mismatch matchesPattern_other_node
  by blast

theorem matchesPattern_total_witness:
  "list_all (compiles plain_engine) (cp_regexes (rule_eval ''alert''))
   \<and> matchesPattern plain_engine call_eval (rule_eval ''alert'') = Inr True
   \<and> matchesPattern plain_engine (Identifier ''eval'') (rule_eval ''alert'') = Inr False"
proof -
  have c: "list_all (compiles plain_engine) (cp_regexes (rule_eval ''alert''))"
    by (simp add: cp_regexes_def rule_eval_def compiles_def plain_engine_def is_alnum_def)
  have k: "cp_type (rule_eval ''alert'') \<noteq> node_type (Identifier ''eval'')"
    by (simp add: rule_eval_def)
  note T = matchesPattern_total [of plain_engine "rule_eval ''alert''"]
  from T [of call_eval] c obtain b
    where b: "matchesPattern plain_engine call_eval (rule_eval ''alert'') = Inr b" by blast
  have "matchesPattern plain_engine call_eval (rule_eval ''alert'') = Inr True"
    by (simp add: matchesPattern_def call_eval_def rule_eval_def matchCallExpression.simps
          matchArgumentPattern.simps matchLiteralPattern_def regexp_test_def plain_engine_def
          is_alnum_def)
  moreover from T [of "Identifier ''eval''"] k
  have "matchesPattern plain_engine (Identifier ''eval'') (rule_eval ''alert'') = Inr False"
    by blast
  ultimately show ?thesis using c by blast
qed

text \<open>
  The claim as stated (the matcher never throws, for every pattern) fails on a rule
  whose argument pattern carries the regex source \<open>(\<close>: the call
  \<open>eval("alert")\<close> makes the matcher compile it, and the error leaves the matcher.
\<close>

theorem matchesPattern_invalid_regex_counterexample:
  "matchesPattern plain_engine call_eval (rule_eval ''('') = Inl (SyntaxError ''('')"
  by (simp add: matchesPattern_def call_eval_def rule_eval_def matchCallExpression.simps
        matchArgumentPattern.simps matchLiteralPattern_def regexp_test_def plain_engine_def
        is_alnum_def)













subsection \<open>Parallel scan\<close>

lemma runLoop_eq:
  "runLoop scanFile files results (posted, console) =
     (results @ concat (map (\<lambda>f. case scanFile f of Inr (rs, logged) \<Rightarrow> rs | Inl e \<Rightarrow> []) files),
      posted @ map (\<lambda>f. case scanFile f of Inr x \<Rightarrow> ProgressMsg f
                                              | Inl e \<Rightarrow> ErrorMsg e (Some f)) files,
      console @ concat (map (\<lambda>f. case scanFile f of Inr (rs, logged) \<Rightarrow> logged
                                                      | Inl e \<Rightarrow> []) files))"
proof (induction files arbitrary: results posted console)
  case Nil then show ?case by simp
next
  case (Cons f files)
  show ?case
  proof (cases "scanFile f")
    case (Inl e)
    with Cons show ?thesis by simp
  next
    case (Inr r)
    obtain rs logged where r: "r = (rs, logged)" by (cases r)
    with Inr Cons show ?thesis by auto
  qed
qed

text \<open>
  The loop of the worker by itself does isolate a scan that throws: it posts an error
  message for that file and goes on.
\<close>

lemma run_isolates:
  "fst (run scanFile files) =
     map (\<lambda>f. case scanFile f of Inr x \<Rightarrow> ProgressMsg f | Inl e \<Rightarrow> ErrorMsg e (Some f)) files
     @ [ResultMsg (concat (map (\<lambda>f. case scanFile f of Inr (rs, logged) \<Rightarrow> rs
                                                        | Inl e \<Rightarrow> []) files))]"
  by (simp add: run_def runLoop_eq)





















end
